theory Spec2Isabelle
  imports Complex_Main
begin

section \<open>Python strings\<close>

text \<open>
  A Python \<open>str\<close> is modelled as a \<open>string\<close> whose characters are the code points
  below 256 (Latin-1), so that the accented letter of the Portuguese word for "average" is the single
  character \<open>CHR 0xE9\<close>, as it is in the source. The helpers below are the \<open>str\<close> methods and the
  regular expressions that \<open>agent.py\<close> uses, restricted to that alphabet.
\<close>

definition is_digit :: "char \<Rightarrow> bool" where
  \<comment> \<open>\<open>\d\<close>: the decimal digits among the code points below 256\<close>
  "is_digit c = (c \<in> set ''0123456789'')"

definition is_hex :: "char \<Rightarrow> bool" where
  \<comment> \<open>\<open>[0-9A-Fa-f]\<close>\<close>
  "is_hex c = (c \<in> set ''0123456789ABCDEFabcdef'')"

definition is_space :: "char \<Rightarrow> bool" where
  \<comment> \<open>\<open>\s\<close> and \<open>str.isspace\<close>: 0x09..0x0D, 0x1C..0x1F, space, 0x85, 0xA0\<close>
  "is_space c = (let n = (of_char c :: nat) in
     (9 \<le> n \<and> n \<le> 13) \<or> (28 \<le> n \<and> n \<le> 32) \<or> n = 133 \<or> n = 160)"

definition is_linebreak :: "char \<Rightarrow> bool" where
  \<comment> \<open>the one-character line boundaries of \<open>str.splitlines\<close>, \<open>\r\<close> apart\<close>
  "is_linebreak c = (let n = (of_char c :: nat) in
     n = 10 \<or> n = 11 \<or> n = 12 \<or> n = 28 \<or> n = 29 \<or> n = 30 \<or> n = 133)"

definition lower_char :: "char \<Rightarrow> char" where
  \<comment> \<open>\<open>A-Z\<close> and the capital letters 0xC0..0xDE (0xD7 is the multiplication sign)\<close>
  "lower_char c = (let n = (of_char c :: nat) in
     if (65 \<le> n \<and> n \<le> 90) \<or> (192 \<le> n \<and> n \<le> 222 \<and> n \<noteq> 215)
     then char_of (n + 32) else c)"

definition py_lower :: "string \<Rightarrow> string" where
  "py_lower s = map lower_char s"

definition upper_char :: "char \<Rightarrow> string" where
  \<comment> \<open>\<open>a-z\<close> and 0xE0..0xFE (0xF7 is the division sign); the sharp s 0xDF becomes
      \<open>SS\<close>. The capitals of 0xB5 and 0xFF lie above 255: those two characters are
      kept as they are, which no comparison with a string of hexadecimal digits and
      colons can observe.\<close>
  "upper_char c = (let n = (of_char c :: nat) in
     if (97 \<le> n \<and> n \<le> 122) \<or> (224 \<le> n \<and> n \<le> 254 \<and> n \<noteq> 247)
     then [char_of (n - 32)]
     else if n = 223 then ''SS'' else [c])"

definition py_upper :: "string \<Rightarrow> string" where
  "py_upper s = concat (map upper_char s)"

definition strip :: "string \<Rightarrow> string" where
  "strip s = rev (dropWhile is_space (rev (dropWhile is_space s)))"

definition startswith :: "string \<Rightarrow> string \<Rightarrow> bool" where
  "startswith s p = (take (length p) s = p)"

fun contains :: "string \<Rightarrow> string \<Rightarrow> bool" where
  \<comment> \<open>\<open>contains sub s\<close> is Python's \<open>sub in s\<close>\<close>
  "contains sub [] = (sub = [])"
| "contains sub (c # cs) = (startswith (c # cs) sub \<or> contains sub cs)"

fun splitlines_from :: "string \<Rightarrow> string \<Rightarrow> string list" where
  "splitlines_from cur [] = (if cur = [] then [] else [cur])"
| "splitlines_from cur (c # cs) =
     (if c = CHR 0x0D then
        (case cs of
           d # ds \<Rightarrow> if d = CHR 0x0A then cur # splitlines_from [] ds
                     else cur # splitlines_from [] cs
         | [] \<Rightarrow> cur # splitlines_from [] cs)
      else if is_linebreak c then cur # splitlines_from [] cs
      else splitlines_from (cur @ [c]) cs)"

definition splitlines :: "string \<Rightarrow> string list" where
  "splitlines s = splitlines_from [] s"

fun split_from :: "char \<Rightarrow> string \<Rightarrow> string \<Rightarrow> string list" where
  "split_from sep cur [] = [cur]"
| "split_from sep cur (c # cs) =
     (if c = sep then cur # split_from sep [] cs else split_from sep (cur @ [c]) cs)"

definition split_char :: "char \<Rightarrow> string \<Rightarrow> string list" where
  \<comment> \<open>\<open>s.split(sep)\<close> for a separator of one character: never the empty list\<close>
  "split_char sep s = split_from sep [] s"

fun before_first :: "string \<Rightarrow> string \<Rightarrow> string" where
  \<comment> \<open>\<open>s.split(sub)[0]\<close>: the text before the first occurrence of \<open>sub\<close>, all of
      \<open>s\<close> when there is none\<close>
  "before_first sub [] = []"
| "before_first sub (c # cs) =
     (if startswith (c # cs) sub then [] else c # before_first sub cs)"

definition last500 :: "string \<Rightarrow> string" where
  \<comment> \<open>\<open>output[-500:]\<close>\<close>
  "last500 s = drop (length s - 500) s"

definition replace_hyphen :: "string \<Rightarrow> string" where
  \<comment> \<open>\<open>s.replace("-", ":")\<close>\<close>
  "replace_hyphen s = map (\<lambda>c. if c = CHR ''-'' then CHR '':'' else c) s"

fun digit_str :: "nat \<Rightarrow> string" where
  "digit_str n = [''0123456789'' ! (n mod 10)]"

function str_nat :: "nat \<Rightarrow> string" where
  \<comment> \<open>\<open>str(n)\<close> and the \<open>{n}\<close> of an f-string, for a non-negative integer\<close>
  "str_nat n = (if n < 10 then digit_str n else str_nat (n div 10) @ digit_str n)"
  by pat_completeness auto
termination
  by (relation "measure id") auto

subsection \<open>Regular expressions\<close>

fun re_search :: "(string \<Rightarrow> 'a option) \<Rightarrow> string \<Rightarrow> 'a option" where
  \<comment> \<open>\<open>re.search\<close>: the match at the leftmost position that has one; the argument is
      the pattern anchored at the start of its input\<close>
  "re_search m [] = m []"
| "re_search m (c # cs) = (case m (c # cs) of Some r \<Rightarrow> Some r | None \<Rightarrow> re_search m cs)"

fun lit_ci :: "string \<Rightarrow> string \<Rightarrow> string option" where
  \<comment> \<open>a literal in lower case matched under \<open>re.IGNORECASE\<close>; the rest of the input\<close>
  "lit_ci [] s = Some s"
| "lit_ci (p # ps) [] = None"
| "lit_ci (p # ps) (c # cs) = (if lower_char c = p then lit_ci ps cs else None)"

definition ws_star :: "string \<Rightarrow> string" where
  \<comment> \<open>\<open>\s*\<close> before a character that is no white space\<close>
  "ws_star s = dropWhile is_space s"

definition ws_plus :: "string \<Rightarrow> string option" where
  \<comment> \<open>\<open>\s+\<close> before a character that is no white space\<close>
  "ws_plus s = (case s of [] \<Rightarrow> None
                | c # cs \<Rightarrow> if is_space c then Some (dropWhile is_space cs) else None)"

definition match_ms :: "string \<Rightarrow> string option" where
  \<comment> \<open>\<open>(\d+)\s*ms\<close> under \<open>re.IGNORECASE\<close>, anchored; group 1\<close>
  "match_ms s = (let ds = takeWhile is_digit s in
     if ds = [] then None
     else (case lit_ci ''ms'' (ws_star (dropWhile is_digit s)) of
             None \<Rightarrow> None | Some _ \<Rightarrow> Some ds))"

definition match_loss :: "string \<Rightarrow> string option" where
  \<comment> \<open>\<open>\((\d+)\s*%\<close>, anchored; group 1\<close>
  "match_loss s = (case s of [] \<Rightarrow> None
     | c # cs \<Rightarrow>
         if c \<noteq> CHR ''('' then None
         else (let ds = takeWhile is_digit cs in
           if ds = [] then None
           else (case ws_star (dropWhile is_digit cs) of
                   [] \<Rightarrow> None
                 | d # _ \<Rightarrow> if d = CHR ''%'' then Some ds else None)))"

definition match_bytes_from :: "string \<Rightarrow> unit option" where
  \<comment> \<open>\<open>bytes?\s+from\<close>\<close>
  "match_bytes_from s = (case lit_ci ''byte'' s of None \<Rightarrow> None
     | Some r \<Rightarrow>
         (let r' = (case lit_ci ''s'' r of Some t \<Rightarrow> t | None \<Rightarrow> r) in
          case ws_plus r' of None \<Rightarrow> None
          | Some t \<Rightarrow> (case lit_ci ''from'' t of None \<Rightarrow> None | Some _ \<Rightarrow> Some ())))"

definition match_resposta_de :: "string \<Rightarrow> unit option" where
  \<comment> \<open>\<open>resposta\s+de\<close>\<close>
  "match_resposta_de s = (case lit_ci ''resposta'' s of None \<Rightarrow> None
     | Some r \<Rightarrow> (case ws_plus r of None \<Rightarrow> None
         | Some t \<Rightarrow> (case lit_ci ''de'' t of None \<Rightarrow> None | Some _ \<Rightarrow> Some ())))"

definition match_reply_from :: "string \<Rightarrow> unit option" where
  \<comment> \<open>\<open>reply\s+from\<close>\<close>
  "match_reply_from s = (case lit_ci ''reply'' s of None \<Rightarrow> None
     | Some r \<Rightarrow> (case ws_plus r of None \<Rightarrow> None
         | Some t \<Rightarrow> (case lit_ci ''from'' t of None \<Rightarrow> None | Some _ \<Rightarrow> Some ())))"

definition match_ttl :: "string \<Rightarrow> unit option" where
  \<comment> \<open>\<open>ttl\s*=\<close>\<close>
  "match_ttl s = (case lit_ci ''ttl'' s of None \<Rightarrow> None
     | Some r \<Rightarrow> (case ws_star r of [] \<Rightarrow> None
         | d # _ \<Rightarrow> if d = CHR ''='' then Some () else None))"

section \<open>The reachability prober: \<open>ping_ip\<close>\<close>

text \<open>
  \<open>subprocess.run\<close> either raises (command missing, timeout: the message of the
  exception is kept) or completes with a return code and the two captured streams.
  What the external command answers is an input of the model.
\<close>

datatype proc_outcome = Raised string | Completed int string string

text \<open>
  The platform: the value of \<open>is_windows\<close>, and Python's \<open>float\<close> with the two
  comparisons the code makes on its results. \<open>pyfloat\<close> returns \<open>Inl\<close> of the
  message where \<open>float\<close> raises \<open>ValueError\<close>.
\<close>

record 'f platform =
  is_windows :: bool
  pyfloat :: "string \<Rightarrow> string + 'f"
  ge_100 :: "'f \<Rightarrow> bool"
  gt_500 :: "'f \<Rightarrow> bool"

definition media :: string where
  "media = [CHR ''m'', CHR 0xE9, CHR ''d'', CHR ''i'', CHR ''a'']"

fun for_lines :: "('a \<Rightarrow> string \<Rightarrow> string + 'a) \<Rightarrow> 'a \<Rightarrow> string list \<Rightarrow> string + 'a" where
  \<comment> \<open>a \<open>for line in ...\<close> loop whose body may raise\<close>
  "for_lines f a [] = Inr a"
| "for_lines f a (l # ls) = (case f a l of Inl e \<Rightarrow> Inl e | Inr a' \<Rightarrow> for_lines f a' ls)"

definition win_avg_line :: "'f platform \<Rightarrow> 'f option \<Rightarrow> string \<Rightarrow> string + 'f option" where
  "win_avg_line pf avg_ms line0 =
     (let line = strip line0 in
      if contains media (py_lower line) \<or> contains ''average'' (py_lower line) then
        (case re_search match_ms line of
           None \<Rightarrow> Inr avg_ms
         | Some g \<Rightarrow> (case pyfloat pf g of Inl e \<Rightarrow> Inl e | Inr v \<Rightarrow> Inr (Some v)))
      else Inr avg_ms)"

definition win_loss_line :: "'f platform \<Rightarrow> 'f option \<Rightarrow> string \<Rightarrow> string + 'f option" where
  "win_loss_line pf loss_pct line =
     (if contains ''perdidos'' (py_lower line) \<or> contains ''lost'' (py_lower line) then
        (case re_search match_loss line of
           None \<Rightarrow> Inr loss_pct
         | Some g \<Rightarrow> (case pyfloat pf g of Inl e \<Rightarrow> Inl e | Inr v \<Rightarrow> Inr (Some v)))
      else Inr loss_pct)"

definition linux_avg_line :: "'f platform \<Rightarrow> 'f option \<Rightarrow> string \<Rightarrow> 'f option" where
  \<comment> \<open>the inner \<open>try\<close> swallows the IndexError of \<open>part[1]\<close> and the ValueError\<close>
  "linux_avg_line pf avg_ms line =
     (if contains ''rtt min/avg/max'' line \<or> contains ''round-trip min/avg/max'' line then
        (case split_char CHR ''/'' (strip (last (split_char CHR ''='' line))) of
           _ # p1 # _ \<Rightarrow> (case pyfloat pf p1 of Inl _ \<Rightarrow> avg_ms | Inr v \<Rightarrow> Some v)
         | _ \<Rightarrow> avg_ms)
      else avg_ms)"

definition linux_loss_line :: "'f platform \<Rightarrow> 'f option \<Rightarrow> string \<Rightarrow> 'f option" where
  "linux_loss_line pf loss_pct line =
     (if contains ''% packet loss'' line then
        (case pyfloat pf (last (split_char CHR '' '' (before_first ''% packet loss'' line))) of
           Inl _ \<Rightarrow> loss_pct | Inr v \<Rightarrow> Some v)
      else loss_pct)"

definition parse_output :: "'f platform \<Rightarrow> string \<Rightarrow> string + ('f option \<times> 'f option)" where
  \<comment> \<open>lines 81-116: \<open>(avg_ms, loss_pct)\<close>, or the exception that leaves the \<open>try\<close>\<close>
  "parse_output pf output =
     (if is_windows pf then
        (case for_lines (win_avg_line pf) None (splitlines output) of
           Inl e \<Rightarrow> Inl e
         | Inr avg_ms \<Rightarrow>
             (case for_lines (win_loss_line pf) None (splitlines output) of
                Inl e \<Rightarrow> Inl e
              | Inr loss_pct \<Rightarrow> Inr (avg_ms, loss_pct)))
      else Inr (foldl (linux_avg_line pf) None (splitlines output),
                foldl (linux_loss_line pf) None (splitlines output)))"

definition has_success :: "string \<Rightarrow> bool" where
  \<comment> \<open>lines 127-133: one of the four \<open>success_patterns\<close> is found in the output\<close>
  "has_success output =
     (re_search match_bytes_from output \<noteq> None \<or>
      re_search match_resposta_de output \<noteq> None \<or>
      re_search match_reply_from output \<noteq> None \<or>
      re_search match_ttl output \<noteq> None)"

datatype 'f attempt_result = Success "'f option" "'f option" string | Failure string

definition ping_attempt :: "'f platform \<Rightarrow> proc_outcome \<Rightarrow> 'f attempt_result" where
  \<comment> \<open>one turn of the loop of lines 76-152: \<open>Success\<close> is the \<open>return\<close> of line 139,
      \<open>Failure\<close> carries the new \<open>last_error\<close>\<close>
  "ping_attempt pf po =
     (case po of
        Raised e \<Rightarrow> Failure (''ping error: '' @ e)
      | Completed returncode out err \<Rightarrow>
          (let output = out @ err in
           case parse_output pf output of
             Inl e \<Rightarrow> Failure (''ping error: '' @ e)
           | Inr (avg_ms, loss_pct) \<Rightarrow>
               (let reachable = (returncode = 0);
                    reachable = (if reachable \<and> (case loss_pct of None \<Rightarrow> False
                                                   | Some l \<Rightarrow> ge_100 pf l)
                                 then False else reachable);
                    reachable = (if reachable \<and> (case avg_ms of None \<Rightarrow> True
                                                   | Some _ \<Rightarrow> False)
                                 then (if \<not> has_success output then False else reachable)
                                 else reachable)
                in if reachable then Success avg_ms loss_pct (last500 output)
                   else Failure (last500 output))))"

type_synonym 'f probe_result = "bool \<times> 'f option \<times> 'f option \<times> string"

fun ping_loop ::
  "'f platform \<Rightarrow> (nat \<Rightarrow> proc_outcome) \<Rightarrow> nat list \<Rightarrow> string option \<Rightarrow> 'f probe_result" where
  \<comment> \<open>\<open>for attempt in range(retry)\<close>, then line 155\<close>
  "ping_loop pf run [] last_error =
     (False, None, None,
      (case last_error of
         None \<Rightarrow> ''ping failed after retries''
       | Some e \<Rightarrow> if e = [] then ''ping failed after retries'' else e))"
| "ping_loop pf run (attempt # rest) last_error =
     (case ping_attempt pf (run attempt) of
        Success avg_ms loss_pct tail \<Rightarrow> (True, avg_ms, loss_pct, tail)
      | Failure e \<Rightarrow> ping_loop pf run rest (Some e))"

definition ping_ip :: "'f platform \<Rightarrow> (nat \<Rightarrow> proc_outcome) \<Rightarrow> int \<Rightarrow> 'f probe_result" where
  \<comment> \<open>\<open>run attempt\<close> is what \<open>subprocess.run\<close> does at that attempt; the address,
      \<open>count\<close> and \<open>timeout_ms\<close> only shape the command line\<close>
  "ping_ip pf run retry = ping_loop pf run [0..<nat retry] None"

definition digits_value :: "string \<Rightarrow> nat" where
  "digits_value s = foldl (\<lambda>a c. 10 * a + (of_char c - 48)) 0 s"

definition win_platform :: "nat platform" where
  \<comment> \<open>A Windows host. There \<open>float\<close> is applied to \<open>\d+\<close> groups only, where it is
      the number the digits denote (as long as a float holds it exactly, and in
      any case on the same side of 100 and of 500).\<close>
  "win_platform =
     \<lparr> is_windows = True,
       pyfloat = (\<lambda>s. if s \<noteq> [] \<and> list_all is_digit s then Inr (digits_value s)
                       else Inl ''could not convert string to float''),
       ge_100 = (\<lambda>n. 100 \<le> n),
       gt_500 = (\<lambda>n. 500 < n) \<rparr>"

definition fail_then_reply :: "nat \<Rightarrow> proc_outcome" where
  \<comment> \<open>an example: the first attempt times out, the second is answered\<close>
  "fail_then_reply a =
     (if a = 0 then Completed 1 ''Request timed out.'' []
      else Completed 0 ''Reply from 10.0.0.5: bytes=32 time=4ms TTL=64'' [])"

definition fail_then_raise :: "nat \<Rightarrow> proc_outcome" where
  \<comment> \<open>an example: the first attempt times out, at the second \<open>subprocess.run\<close> raises\<close>
  "fail_then_raise a =
     (if a = 0 then Completed 1 ''Request timed out.'' [] else Raised ''timed out'')"

section \<open>The hardware address resolver: \<open>get_mac_address\<close>\<close>

definition mac_sep_at :: "string \<Rightarrow> bool" where
  \<comment> \<open>\<open>([0-9A-Fa-f]{2}[:-]){5}([0-9A-Fa-f]{2})\<close> matches at the start of the input\<close>
  "mac_sep_at s =
     (17 \<le> length s \<and>
      list_all (\<lambda>i. if i mod 3 = 2 then s ! i = CHR '':'' \<or> s ! i = CHR ''-''
                      else is_hex (s ! i)) [0..<17])"

definition match_mac_sep :: "string \<Rightarrow> string option" where
  "match_mac_sep s = (if mac_sep_at s then Some (take 17 s) else None)"

definition mac_bare_at :: "string \<Rightarrow> bool" where
  \<comment> \<open>\<open>([0-9A-Fa-f]{12})\<close> matches at the start of the input\<close>
  "mac_bare_at s = (12 \<le> length s \<and> list_all is_hex (take 12 s))"

definition match_mac_bare :: "string \<Rightarrow> string option" where
  "match_mac_bare s = (if mac_bare_at s then Some (take 12 s) else None)"

definition colon_pairs :: "string \<Rightarrow> string" where
  \<comment> \<open>\<open>":".join([mac[i:i+2] for i in range(0, 12, 2)])\<close>\<close>
  "colon_pairs m =
     concat (map (\<lambda>i. (if i = 0 then [] else '':'') @ take 2 (drop i m)) [0, 2, 4, 6, 8, 10])"

definition normalize_mac :: "string \<Rightarrow> string" where
  \<comment> \<open>lines 190-195, applied to \<open>match.group(0)\<close>\<close>
  "normalize_mac m =
     (let m1 = replace_hyphen m;
          m2 = (if length m1 = 12 then colon_pairs m1 else m1)
      in py_upper m2)"

definition get_mac_address :: "'f platform \<Rightarrow> proc_outcome \<Rightarrow> proc_outcome \<Rightarrow> string option" where
  \<comment> \<open>\<open>ping_po\<close> is what the priming ping does and \<open>arp_po\<close> what the \<open>arp\<close>
      command does. Every exception is caught at line 199 and gives \<open>None\<close>.\<close>
  "get_mac_address pf ping_po arp_po =
     (let primed = ping_ip pf (\<lambda>_. ping_po) 1 in
      case arp_po of
        Raised e \<Rightarrow> None
      | Completed returncode out err \<Rightarrow>
          (let output = out @ err in
           case re_search match_mac_sep output of
             Some m \<Rightarrow> Some (normalize_mac m)
           | None \<Rightarrow>
               (case re_search match_mac_bare output of
                  Some m \<Rightarrow> Some (normalize_mac m)
                | None \<Rightarrow> None)))"

definition is_canonical_mac :: "string \<Rightarrow> bool" where
  \<comment> \<open>six groups of two upper-case hexadecimal digits, joined by colons\<close>
  "is_canonical_mac m =
     (length m = 17 \<and>
      list_all (\<lambda>i. if i mod 3 = 2 then m ! i = CHR '':''
                      else m ! i \<in> set ''0123456789ABCDEF'') [0..<17])"

definition arp_line_9 :: string where
  \<comment> \<open>an example: the line of the Windows \<open>arp -a\<close> table for a neighbour\<close>
  "arp_line_9 = ''  10.0.0.9   aa-bb-cc-dd-ee-ff   dynamic''"

section \<open>The rediscovery scanner: \<open>scan_network_for_mac\<close>\<close>

text \<open>
  What the outside does during one scan: the clock at line 220, and for the unit of
  work of each suffix the clock when \<open>check_ip\<close> begins, what its priming ping and its
  \<open>arp\<close> command do, and the clock when it finishes (which the code never reads);
  \<open>completed\<close> is the order in which \<open>as_completed\<close> hands the futures over. Clock
  readings are rationals, their subtraction is exact.
\<close>

record scan_world =
  start_time :: rat
  unit_begin :: "nat \<Rightarrow> rat"
  unit_ping :: "nat \<Rightarrow> proc_outcome"
  unit_arp :: "nat \<Rightarrow> proc_outcome"
  unit_end :: "nat \<Rightarrow> rat"
  completed :: "nat list"

definition check_ip ::
  "'f platform \<Rightarrow> scan_world \<Rightarrow> string \<Rightarrow> string \<Rightarrow> int \<Rightarrow> nat \<Rightarrow> string option" where
  "check_ip pf w mac_normalized network_prefix timeout_sec suffix =
     (if unit_begin w suffix - start_time w > of_int timeout_sec then None
      else
        (let ip = network_prefix @ str_nat suffix;
             found_mac = get_mac_address pf (unit_ping w suffix) (unit_arp w suffix)
         in case found_mac of
              None \<Rightarrow> None
            | Some fm \<Rightarrow> if fm \<noteq> [] \<and> py_upper fm = mac_normalized then Some ip else None))"

fun first_result :: "(nat \<Rightarrow> string option) \<Rightarrow> nat list \<Rightarrow> string option" where
  \<comment> \<open>lines 243-255: the first future, in the order of completion, whose result is
      true; the futures cancelled after it never run\<close>
  "first_result f [] = None"
| "first_result f (i # rest) =
     (case f i of
        Some r \<Rightarrow> if r \<noteq> [] then Some r else first_result f rest
      | None \<Rightarrow> first_result f rest)"

definition scan_network_for_mac ::
  "'f platform \<Rightarrow> scan_world \<Rightarrow> string \<Rightarrow> string \<Rightarrow> int \<Rightarrow> string option" where
  "scan_network_for_mac pf w mac network_prefix timeout_sec =
     (let mac_normalized = replace_hyphen (py_upper mac)
      in first_result (check_ip pf w mac_normalized network_prefix timeout_sec) (completed w))"

definition no_arp_entry :: proc_outcome where
  \<comment> \<open>an example: \<open>arp -a\<close> for an address that is not in the table\<close>
  "no_arp_entry = Completed 1 ''No ARP Entries Found.'' []"

definition ex_scan :: scan_world where
  \<comment> \<open>an example: the scan starts at 1000 s, every unit begins one second later and
      takes one second; only 10.0.0.9 is in the table\<close>
  "ex_scan =
     \<lparr> start_time = 1000,
       unit_begin = (\<lambda>i. 1001),
       unit_ping = (\<lambda>i. Raised ''timed out''),
       unit_arp = (\<lambda>i. if i = 9 then Completed 0 arp_line_9 [] else no_arp_entry),
       unit_end = (\<lambda>i. 1002),
       completed = [1..<255] \<rparr>"

definition slow_scan :: scan_world where
  \<comment> \<open>as \<open>ex_scan\<close>, but every unit begins 29 s after the start and its
      resolution takes 6 s\<close>
  "slow_scan = ex_scan \<lparr> unit_begin := (\<lambda>i. 1029), unit_end := (\<lambda>i. 1035) \<rparr>"

definition late_scan :: scan_world where
  \<comment> \<open>as \<open>ex_scan\<close>, but the unit of 10.0.0.9 only begins 31 s after the start\<close>
  "late_scan = ex_scan \<lparr> unit_begin := (\<lambda>i. if i = 9 then 1031 else 1001),
                             unit_end := (\<lambda>i. if i = 9 then 1031 else 1002) \<rparr>"

section \<open>The monitoring cycle: the camera loop of \<open>run_once\<close>\<close>

text \<open>
  The roster is read from JSON (lines 788-796), and an entry is kept when it is a
  dictionary whose \<open>ip\<close> is true: the address is whatever JSON value stands there. It
  is modelled as a string or as any other value, of which only the text that \<open>str\<close>
  gives is kept (a number, a list, a dictionary, \<open>True\<close>). The name and the id of an
  entry are strings or \<open>None\<close>. The cache of the state file holds what this loop
  writes: under each id a MAC that is a string, an address and a time.
\<close>

datatype jvalue = JStr string | JOther string

definition py_str :: "jvalue \<Rightarrow> string" where
  \<comment> \<open>\<open>str(v)\<close>\<close>
  "py_str v = (case v of JStr s \<Rightarrow> s | JOther t \<Rightarrow> t)"

datatype py_error = KeyError string | AttributeError string

record camera =
  c_id :: "string option"
  c_name :: "string option"
  c_ip :: jvalue

record mac_entry =
  mac :: string
  last_ip :: jvalue
  last_seen :: rat

type_synonym cache = "string \<rightharpoonup> mac_entry"

record 'f report =
  r_name :: "string option"
  r_ip :: jvalue
  r_status :: string
  r_latency_ms :: "'f option"
  r_packet_loss :: "'f option"
  r_suspicious :: bool
  r_mac_address :: "string option"
  r_ip_changed :: bool
  r_old_ip :: "jvalue option"

text \<open>
  What the outside does during the turn of the loop for one camera: the attempts of the
  ping of line 864, the resolution of line 880, the clock at line 887, the scan of line
  904, the attempts of the ping of line 911 and the clock at line 916.
\<close>

record camera_world =
  first_ping :: "nat \<Rightarrow> proc_outcome"
  mac_ping :: proc_outcome
  mac_arp :: proc_outcome
  cache_time :: rat
  scan :: scan_world
  second_ping :: "nat \<Rightarrow> proc_outcome"
  reloc_time :: rat

definition subprocess_run :: "jvalue \<Rightarrow> proc_outcome \<Rightarrow> proc_outcome" where
  \<comment> \<open>\<open>subprocess.run\<close> on a command line that holds the address: an element that is
      no string raises TypeError before any process starts (the message ends with the
      name of the element's type, which nothing reads); otherwise the outcome is what
      the outside gives\<close>
  "subprocess_run ip po =
     (case ip of JStr s \<Rightarrow> po
      | JOther t \<Rightarrow> Raised ''expected str, bytes or os.PathLike object'')"

definition ping_address ::
  "'f platform \<Rightarrow> jvalue \<Rightarrow> (nat \<Rightarrow> proc_outcome) \<Rightarrow> int \<Rightarrow> 'f probe_result" where
  \<comment> \<open>\<open>ping_ip(ip, ...)\<close> for a roster address\<close>
  "ping_address pf ip run retry = ping_ip pf (\<lambda>attempt. subprocess_run ip (run attempt)) retry"

definition resolve_address ::
  "'f platform \<Rightarrow> jvalue \<Rightarrow> proc_outcome \<Rightarrow> proc_outcome \<Rightarrow> string option" where
  \<comment> \<open>\<open>get_mac_address(ip)\<close> for a roster address\<close>
  "resolve_address pf ip ping_po arp_po =
     get_mac_address pf (subprocess_run ip ping_po) (subprocess_run ip arp_po)"

definition py_or :: "string option \<Rightarrow> string \<Rightarrow> string" where
  \<comment> \<open>\<open>a or b\<close>\<close>
  "py_or a b = (case a of None \<Rightarrow> b | Some s \<Rightarrow> if s \<noteq> [] then s else b)"

definition cam_id_of :: "camera \<Rightarrow> string" where
  \<comment> \<open>line 861, and the \<open>str(cam_id)\<close> of the lines after it\<close>
  "cam_id_of c = py_or (c_id c) (py_or (c_name c) (py_str (c_ip c)))"

definition dict_get :: "('k \<rightharpoonup> 'v) \<Rightarrow> 'k \<Rightarrow> 'k + 'v" where
  \<comment> \<open>\<open>d[k]\<close>: \<open>Inl k\<close> stands for the KeyError\<close>
  "dict_get d k = (case d k of None \<Rightarrow> Inl k | Some v \<Rightarrow> Inr v)"

definition join_dot :: "string list \<Rightarrow> string" where
  \<comment> \<open>\<open>".".join(parts)\<close>\<close>
  "join_dot parts = (case parts of [] \<Rightarrow> []
                     | p # ps \<Rightarrow> p @ concat (map (\<lambda>q. ''.'' @ q) ps))"

definition set_field :: "cache \<Rightarrow> string \<Rightarrow> (mac_entry \<Rightarrow> mac_entry) \<Rightarrow> py_error + cache" where
  \<comment> \<open>\<open>mac_cache[k][field] = v\<close>: the entry must be there\<close>
  "set_field d k store =
     (case dict_get d k of Inl k' \<Rightarrow> Inl (KeyError k') | Inr e \<Rightarrow> Inr (d(k \<mapsto> store e)))"

definition is_suspicious ::
  "'f platform \<Rightarrow> jvalue \<Rightarrow> bool \<Rightarrow> 'f option \<Rightarrow> py_error + bool" where
  \<comment> \<open>lines 867-870: \<open>startswith\<close> is a method of strings\<close>
  "is_suspicious pf ip reachable avg_ms =
     (if reachable \<and> (case avg_ms of None \<Rightarrow> False | Some a \<Rightarrow> gt_500 pf a) then
        (case ip of
           JStr s \<Rightarrow> Inr (startswith s ''192.168.'' \<or> startswith s ''10.'' \<or>
                         startswith s ''172.'')
         | JOther t \<Rightarrow> Inl (AttributeError ''startswith''))
      else Inr False)"

definition cache_mac ::
  "cache \<Rightarrow> bool \<Rightarrow> string \<Rightarrow> string \<Rightarrow> jvalue \<Rightarrow> rat \<Rightarrow> py_error + (cache \<times> bool)" where
  \<comment> \<open>lines 883-889; \<open>now\<close> is \<open>time.time()\<close>\<close>
  "cache_mac mac_cache mac_cache_updated cam_id mac_address ip now =
     (case (if mac_cache cam_id = None then Inr True
            else (case dict_get mac_cache cam_id of
                    Inl k \<Rightarrow> Inl (KeyError k)
                  | Inr e \<Rightarrow> Inr (mac e \<noteq> mac_address))) of
        Inl e \<Rightarrow> Inl e
      | Inr differs \<Rightarrow>
          if differs
          then Inr (mac_cache(cam_id \<mapsto>
                      \<lparr> mac = mac_address, last_ip = ip, last_seen = now \<rparr>), True)
          else Inr (mac_cache, mac_cache_updated))"

text \<open>
  The local variables of the loop body that the tracking block may assign:
  \<open>(reachable, avg_ms, loss, ip, mac_address, ip_changed, mac_cache, mac_cache_updated)\<close>.
\<close>

type_synonym 'f locals =
  "bool \<times> 'f option \<times> 'f option \<times> jvalue \<times> string option \<times> bool \<times> cache \<times> bool"

definition search_by_mac ::
  "'f platform \<Rightarrow> camera_world \<Rightarrow> string \<Rightarrow> 'f locals \<Rightarrow> py_error + 'f locals" where
  \<comment> \<open>lines 894-920, the body of the \<open>elif\<close>; \<open>split\<close> is a method of strings\<close>
  "search_by_mac pf w cam_id loc =
     (case loc of (reachable, avg_ms, loss, ip, mac_address, ip_changed, mac_cache, updated) \<Rightarrow>
      case dict_get mac_cache cam_id of
        Inl k \<Rightarrow> Inl (KeyError k)
      | Inr e \<Rightarrow>
          (let cached_mac = mac e in
           if cached_mac = [] then Inr loc
           else
             (case ip of
                JOther t \<Rightarrow> Inl (AttributeError ''split'')
              | JStr s \<Rightarrow>
             (let ip_parts = split_char CHR ''.'' s in
              if length ip_parts \<noteq> 4 then Inr loc
              else
                (let network_prefix = join_dot (take 3 ip_parts) @ ''.'';
                     new_ip = scan_network_for_mac pf (scan w) cached_mac network_prefix 30
                 in case new_ip of
                      None \<Rightarrow> Inr loc
                    | Some b \<Rightarrow>
                        if b = [] \<or> JStr b = ip then Inr loc
                        else
                          (case ping_ip pf (second_ping w) 2 of
                             (reachable2, avg_ms2, loss2, out2) \<Rightarrow>
                               if reachable2 then
                                 (case set_field mac_cache cam_id
                                         (\<lambda>e. e\<lparr>last_ip := JStr b\<rparr>) of
                                    Inl err \<Rightarrow> Inl err
                                  | Inr cache1 \<Rightarrow>
                                      (case set_field cache1 cam_id
                                              (\<lambda>e. e\<lparr>last_seen := reloc_time w\<rparr>) of
                                         Inl err \<Rightarrow> Inl err
                                       | Inr cache2 \<Rightarrow>
                                           Inr (reachable2, avg_ms2, loss2, JStr b, mac_address,
                                                True, cache2, True)))
                               else Inr (reachable2, avg_ms2, loss2, ip, mac_address,
                                         True, mac_cache, updated)))))))"

definition track_mac ::
  "'f platform \<Rightarrow> camera_world \<Rightarrow> string \<Rightarrow> 'f locals \<Rightarrow> py_error + 'f locals" where
  \<comment> \<open>lines 878-920, the body of \<open>if mac_tracking_enabled\<close>\<close>
  "track_mac pf w cam_id loc =
     (case loc of (reachable, avg_ms, loss, ip, mac_address0, ip_changed, mac_cache, updated) \<Rightarrow>
      if reachable then
        (let mac_address = resolve_address pf ip (mac_ping w) (mac_arp w) in
         case mac_address of
           None \<Rightarrow> Inr (reachable, avg_ms, loss, ip, mac_address, ip_changed, mac_cache, updated)
         | Some m \<Rightarrow>
             if m = [] then
               Inr (reachable, avg_ms, loss, ip, mac_address, ip_changed, mac_cache, updated)
             else
               (case cache_mac mac_cache updated cam_id m ip (cache_time w) of
                  Inl err \<Rightarrow> Inl err
                | Inr (cache1, updated1) \<Rightarrow>
                    Inr (reachable, avg_ms, loss, ip, mac_address, ip_changed, cache1, updated1)))
      else if \<not> reachable \<and> mac_cache cam_id \<noteq> None then search_by_mac pf w cam_id loc
      else Inr loc)"

definition eval_camera ::
  "'f platform \<Rightarrow> bool \<Rightarrow> camera_world \<Rightarrow> camera \<Rightarrow> cache \<Rightarrow> bool \<Rightarrow>
   py_error + ('f report \<times> cache \<times> bool)" where
  \<comment> \<open>lines 859-932: one turn of \<open>for c in cameras\<close>; the report appended, the cache
      and \<open>mac_cache_updated\<close> after it, or the exception that leaves the body (it has
      no handler). The \<open>print\<close> calls of lines 890, 896 and 907 are taken to succeed:
      whether they do depends on the console, not on the roster or on what the
      commands answer.\<close>
  "eval_camera pf mac_tracking_enabled w c mac_cache mac_cache_updated =
     (let ip = c_ip c;
          name = c_name c;
          cam_id = cam_id_of c
      in case ping_address pf ip (first_ping w) 2 of
        (reachable, avg_ms, loss, out) \<Rightarrow>
          (case is_suspicious pf ip reachable avg_ms of
             Inl err \<Rightarrow> Inl err
           | Inr suspicious \<Rightarrow>
          (let loc = (reachable, avg_ms, loss, ip, None, False, mac_cache, mac_cache_updated)
           in case (if mac_tracking_enabled then track_mac pf w cam_id loc else Inr loc) of
                Inl err \<Rightarrow> Inl err
              | Inr (reachable1, avg_ms1, loss1, ip1, mac_address, ip_changed, cache1, updated1) \<Rightarrow>
                  Inr (\<lparr> r_name = name,
                         r_ip = ip1,
                         r_status = (if reachable1 then ''up'' else ''down''),
                         r_latency_ms = avg_ms1,
                         r_packet_loss = loss1,
                         r_suspicious = suspicious,
                         r_mac_address = mac_address,
                         r_ip_changed = ip_changed,
                         r_old_ip = (if ip_changed then Some (c_ip c) else None) \<rparr>,
                       cache1, updated1))))"

fun run_cameras ::
  "'f platform \<Rightarrow> bool \<Rightarrow> (nat \<Rightarrow> camera_world) \<Rightarrow> nat \<Rightarrow> camera list \<Rightarrow>
   'f report list \<Rightarrow> cache \<Rightarrow> bool \<Rightarrow> py_error + ('f report list \<times> cache \<times> bool)" where
  \<comment> \<open>\<open>for c in cameras\<close> from the camera of index \<open>i\<close> on; an exception of the body
      leaves the loop\<close>
  "run_cameras pf en ws i [] cam_reports mac_cache updated = Inr (cam_reports, mac_cache, updated)"
| "run_cameras pf en ws i (c # cs) cam_reports mac_cache updated =
     (case eval_camera pf en (ws i) c mac_cache updated of
        Inl err \<Rightarrow> Inl err
      | Inr (rep, cache1, updated1) \<Rightarrow>
          run_cameras pf en ws (Suc i) cs (cam_reports @ [rep]) cache1 updated1)"

definition run_once_cameras ::
  "'f platform \<Rightarrow> bool \<Rightarrow> (nat \<Rightarrow> camera_world) \<Rightarrow> camera list \<Rightarrow> cache option \<Rightarrow>
   py_error + ('f report list \<times> cache option)" where
  \<comment> \<open>lines 853-937. \<open>stored\<close> is the value under \<open>camera_mac_cache\<close> in the state
      file (\<open>None\<close>: no such key); the result is the list of reports and the value
      under that key after the cycle, written only when \<open>mac_cache_updated\<close>. An
      exception of the loop leaves \<open>run_once\<close>: no list of reports is built.\<close>
  "run_once_cameras pf mac_tracking_enabled ws cameras stored =
     (case run_cameras pf mac_tracking_enabled ws 0 cameras []
             (case stored of None \<Rightarrow> Map.empty | Some m \<Rightarrow> m) False of
        Inl err \<Rightarrow> Inl err
      | Inr (cam_reports, mac_cache, updated) \<Rightarrow>
          Inr (cam_reports, if updated then Some mac_cache else stored))"

section \<open>Example cycles\<close>

definition timed_out_po :: proc_outcome where
  "timed_out_po = Completed 1 ''Request timed out.'' []"

definition reply_po :: proc_outcome where
  "reply_po = Completed 0 ''Reply from 10.0.0.9: bytes=32 time=4ms TTL=64'' []"

definition cam1 :: camera where
  "cam1 = \<lparr> c_id = None, c_name = Some ''cam1'', c_ip = JStr ''10.0.0.5'' \<rparr>"

definition cam1_moved :: camera where
  \<comment> \<open>the same camera, once the roster gives its new address\<close>
  "cam1_moved = \<lparr> c_id = None, c_name = Some ''cam1'', c_ip = JStr ''10.0.0.9'' \<rparr>"

definition cam1_number :: camera where
  \<comment> \<open>the same camera, with its address given as the number 167772165\<close>
  "cam1_number = \<lparr> c_id = None, c_name = Some ''cam1'', c_ip = JOther ''167772165'' \<rparr>"

definition cam2 :: camera where
  "cam2 = \<lparr> c_id = None, c_name = Some ''cam2'', c_ip = JStr ''10.0.0.9'' \<rparr>"

definition cam1_cache :: cache where
  "cam1_cache =
     [''cam1'' \<mapsto> \<lparr> mac = ''AA:BB:CC:DD:EE:FF'', last_ip = JStr ''10.0.0.5'',
                    last_seen = 900 \<rparr>]"

definition up_world :: camera_world where
  \<comment> \<open>the ping of line 864 is answered and the address resolves to AA:BB:CC:DD:EE:FF,
      at 2000 s\<close>
  "up_world =
     \<lparr> first_ping = (\<lambda>_. reply_po),
       mac_ping = reply_po,
       mac_arp = Completed 0 arp_line_9 [],
       cache_time = 2000,
       scan = ex_scan,
       second_ping = (\<lambda>_. timed_out_po),
       reloc_time = 2010 \<rparr>"

definition dark_world :: camera_world where
  \<comment> \<open>the ping of line 864 fails, the scan finds the MAC at 10.0.0.9, and the ping of
      line 911 fails too\<close>
  "dark_world = up_world \<lparr> first_ping := (\<lambda>_. timed_out_po) \<rparr>"



definition moved_world :: camera_world where
  \<comment> \<open>the ping of line 864 fails, the scan finds the MAC at 10.0.0.9, and the ping of
      line 911 is answered\<close>
  "moved_world = dark_world \<lparr> second_ping := (\<lambda>_. reply_po) \<rparr>"


definition broken_world :: camera_world where
  \<comment> \<open>no \<open>ping\<close> and no \<open>arp\<close> can be started for the camera's address: every call of
      \<open>subprocess.run\<close> raises\<close>
  "broken_world =
     up_world \<lparr> first_ping := (\<lambda>_. Raised ''[WinError 2] The system cannot find the file specified''),
                mac_ping := Raised ''[WinError 2] The system cannot find the file specified'',
                mac_arp := Raised ''[WinError 2] The system cannot find the file specified'' \<rparr>"

definition broken_then_up :: "nat \<Rightarrow> camera_world" where
  \<comment> \<open>the commands fail for the first camera of the roster and work for the others\<close>
  "broken_then_up i = (if i = 0 then broken_world else up_world)"

definition all_dark :: "nat \<Rightarrow> camera_world" where
  \<comment> \<open>every camera of the roster meets \<open>dark_world\<close>\<close>
  "all_dark i = dark_world"

section \<open>Properties of the prober\<close>

lemma ping_loop_fails:
  "\<forall>a\<in>set as. \<exists>e. ping_attempt pf (run a) = Failure e \<Longrightarrow>
   fst (ping_loop pf run as le) = False"
  by (induction as arbitrary: le) auto

lemma ping_loop_first_success:
  "\<forall>a\<in>set as. \<exists>e. ping_attempt pf (run a) = Failure e \<Longrightarrow>
   ping_attempt pf (run b) = Success lat loss tail \<Longrightarrow>
   ping_loop pf run (as @ b # rest) le = (True, lat, loss, tail)"
  by (induction as arbitrary: le) auto

lemma ping_loop_last_failure:
  "\<forall>a\<in>set as. \<exists>e. ping_attempt pf (run a) = Failure e \<Longrightarrow>
   ping_attempt pf (run b) = Failure e \<Longrightarrow>
   ping_loop pf run (as @ [b]) le =
     (False, None, None, if e = [] then ''ping failed after retries'' else e)"
  by (induction as arbitrary: le) auto

lemma last500_Nil_iff: "last500 s = [] \<longleftrightarrow> s = []"
proof -
  have "length s \<le> length s - 500 \<longleftrightarrow> length s = 0" by arith
  then show ?thesis by (simp add: last500_def)
qed

lemma length_last500: "length (last500 s) \<le> 500"
  by (simp add: last500_def)

lemma upt_nat_last: "0 < (R::int) \<Longrightarrow> [0..<nat R] = [0..<nat R - 1] @ [nat R - 1]"
  by (metis Suc_diff_1 upt_Suc_append zero_le zero_less_nat_eq)

lemma ping_attempt_Completed:
  "parse_output pf (out @ err) = Inr (a, l) \<Longrightarrow>
   ping_attempt pf (Completed rc out err) =
     (if rc = 0 \<and> \<not> (case l of None \<Rightarrow> False | Some x \<Rightarrow> ge_100 pf x) \<and>
         (a = None \<longrightarrow> has_success (out @ err))
      then Success a l (last500 (out @ err)) else Failure (last500 (out @ err)))"
  by (cases a; cases l; cases "rc = 0"; cases "has_success (out @ err)")
     (simp_all add: ping_attempt_def Let_def)

lemma ping_attempt_Completed_Success:
  assumes "ping_attempt pf (Completed rc out err) = Success lat loss tail"
  shows "rc = 0 \<and> tail = last500 (out @ err) \<and>
     parse_output pf (out @ err) = Inr (lat, loss) \<and>
     (lat = None \<longrightarrow> has_success (out @ err))"
proof (cases "parse_output pf (out @ err)")
  case (Inl e)
  with assms show ?thesis by (simp add: ping_attempt_def)
next
  case (Inr p)
  obtain a l where p: "p = (a, l)" by (cases p)
  with Inr have eq: "parse_output pf (out @ err) = Inr (a, l)" by simp
  from assms show ?thesis
    unfolding ping_attempt_Completed [OF eq] eq
    by (simp split: if_splits)
qed

lemma ping_attempt_SuccessD:
  assumes "ping_attempt pf po = Success lat loss tail"
  shows "\<exists>out err. po = Completed 0 out err \<and> tail = last500 (out @ err) \<and>
     parse_output pf (out @ err) = Inr (lat, loss)"
proof (cases po)
  case (Raised e)
  with assms show ?thesis by (simp add: ping_attempt_def)
next
  case (Completed rc out err)
  with assms ping_attempt_Completed_Success [of pf rc out err lat loss tail]
  show ?thesis by blast
qed

lemma ping_attempt_no_evidence:
  assumes "\<not> has_success (out @ err)"
    and "\<And>lat loss. parse_output pf (out @ err) = Inr (lat, loss) \<Longrightarrow> lat = None"
  shows "\<exists>e. ping_attempt pf (Completed rc out err) = Failure e"
proof (cases "parse_output pf (out @ err)")
  case (Inl e)
  then show ?thesis by (simp add: ping_attempt_def)
next
  case (Inr p)
  obtain a l where p: "p = (a, l)" by (cases p)
  with Inr assms(2) have "a = None" by simp
  with Inr p assms(1) show ?thesis
    by (simp add: ping_attempt_Completed)
qed

lemma ping_attempt_Failure_text:
  assumes "ping_attempt pf po = Failure e"
  shows "e = (case po of
          Raised msg \<Rightarrow> ''ping error: '' @ msg
        | Completed rc out err \<Rightarrow>
            (case parse_output pf (out @ err) of
               Inl msg \<Rightarrow> ''ping error: '' @ msg
             | Inr _ \<Rightarrow> last500 (out @ err)))"
proof (cases po)
  case (Raised msg)
  with assms show ?thesis by (simp add: ping_attempt_def)
next
  case (Completed rc out err)
  show ?thesis
  proof (cases "parse_output pf (out @ err)")
    case (Inl msg)
    with assms Completed show ?thesis by (simp add: ping_attempt_def)
  next
    case (Inr p)
    obtain a l where p: "p = (a, l)" by (cases p)
    with Inr have eq: "parse_output pf (out @ err) = Inr (a, l)" by simp
    from assms Completed show ?thesis
      unfolding Completed ping_attempt_Completed [OF eq]
      by (simp add: eq split: if_splits)
  qed
qed

text \<open>
  C1 (as amended). The process exits with return code 0 at every attempt, none of the
  four reply patterns occurs in the output, and no average latency is parsed from it:
  then \<open>ping_ip\<close> reports the address unreachable. The guard of lines 125-135 is
  only entered when \<open>avg_ms is None\<close>.
\<close>

theorem no_evidence_no_latency_unreachable:
  assumes "\<And>a. a < nat retry \<Longrightarrow> run a = Completed 0 (out a) (err a)"
    and "\<And>a. a < nat retry \<Longrightarrow> \<not> has_success (out a @ err a)"
    and "\<And>a lat loss. a < nat retry \<Longrightarrow>
           parse_output pf (out a @ err a) = Inr (lat, loss) \<Longrightarrow> lat = None"
  shows "fst (ping_ip pf run retry) = False"
proof -
  have "\<forall>a\<in>set [0..<nat retry]. \<exists>e. ping_attempt pf (run a) = Failure e"
  proof
    fix a assume "a \<in> set [0..<nat retry]"
    then have a: "a < nat retry" by simp
    from ping_attempt_no_evidence [OF assms(2) [OF a] assms(3) [OF a]]
    show "\<exists>e. ping_attempt pf (run a) = Failure e"
      by (simp add: assms(1) [OF a])
  qed
  then show ?thesis
    unfolding ping_ip_def by (rule ping_loop_fails)
qed

lemma parse_timed_out:
  "parse_output win_platform (''Request timed out.'' @ []) = Inr (None, None)"
  by code_simp

lemma no_success_timed_out: "\<not> has_success (''Request timed out.'' @ [])"
  by code_simp

theorem no_evidence_no_latency_unreachable_witness:
  "fst (ping_ip win_platform (\<lambda>_. Completed 0 ''Request timed out.'' []) 2) = False"
proof (rule no_evidence_no_latency_unreachable
    [where out = "\<lambda>_. ''Request timed out.''" and err = "\<lambda>_. []"])
  fix a :: nat
  show "(\<lambda>_. Completed 0 ''Request timed out.'' []) a = Completed 0 ''Request timed out.'' []"
    by simp
  show "\<not> has_success (''Request timed out.'' @ [])"
    by (rule no_success_timed_out)
  fix lat loss :: "nat option"
  assume "parse_output win_platform (''Request timed out.'' @ []) = Inr (lat, loss)"
  then show "lat = None"
    by (simp only: parse_timed_out sum.inject prod.inject)
qed

text \<open>
  C1 as stated fails when a latency is parsed: a Windows summary line without any
  reply line, from a process that exits with 0, is reported reachable.
\<close>

theorem latency_without_evidence_counterexample:
  "\<not> has_success (''Minimum = 0ms, Maximum = 0ms, Average = 0ms'' @ []) \<and>
   ping_ip win_platform
     (\<lambda>_. Completed 0 ''Minimum = 0ms, Maximum = 0ms, Average = 0ms'' []) 2 =
     (True, Some 0, None, ''Minimum = 0ms, Maximum = 0ms, Average = 0ms'')"
  by code_simp

text \<open>
  C6 (as amended). With \<open>retry = R > 0\<close>: when the first \<open>R - 1\<close> attempts fail and
  the last one succeeds, \<open>ping_ip\<close> returns that attempt's data: reachable, the latency
  and loss parsed from its output, and the last 500 characters of that output. When all
  \<open>R\<close> attempts fail it returns unreachable, no latency, no loss, and a text taken from
  the last attempt: \<open>ping error: ...\<close> when that attempt raised, the last 500 characters
  of its output when there are any, and \<open>ping failed after retries\<close> when its output
  is empty.
\<close>

theorem ping_ip_retries:
  assumes R: "0 < R"
  shows "((\<forall>a<nat R - 1. \<exists>e. ping_attempt pf (run a) = Failure e) \<and>
          ping_attempt pf (run (nat R - 1)) = Success lat loss tail \<longrightarrow>
            ping_ip pf run R = (True, lat, loss, tail) \<and> length tail \<le> 500 \<and>
            (\<exists>out err. run (nat R - 1) = Completed 0 out err \<and>
               tail = last500 (out @ err) \<and> parse_output pf (out @ err) = Inr (lat, loss))) \<and>
         ((\<forall>a<nat R. \<exists>e. ping_attempt pf (run a) = Failure e) \<longrightarrow>
            ping_ip pf run R =
              (False, None, None,
               (case run (nat R - 1) of
                  Raised msg \<Rightarrow> ''ping error: '' @ msg
                | Completed rc out err \<Rightarrow>
                    (case parse_output pf (out @ err) of
                       Inl msg \<Rightarrow> ''ping error: '' @ msg
                     | Inr _ \<Rightarrow> if out @ err = [] then ''ping failed after retries''
                                else last500 (out @ err)))))"
proof (intro conjI impI)
  assume h: "(\<forall>a<nat R - 1. \<exists>e. ping_attempt pf (run a) = Failure e) \<and>
          ping_attempt pf (run (nat R - 1)) = Success lat loss tail"
  then have fails: "\<forall>a\<in>set [0..<nat R - 1]. \<exists>e. ping_attempt pf (run a) = Failure e"
    by simp
  from h have ok: "ping_attempt pf (run (nat R - 1)) = Success lat loss tail" by simp
  show "ping_ip pf run R = (True, lat, loss, tail)"
    unfolding ping_ip_def upt_nat_last [OF R]
    by (rule ping_loop_first_success [OF fails ok])
  from ping_attempt_SuccessD [OF ok]
  obtain out err where oe: "run (nat R - 1) = Completed 0 out err"
      "tail = last500 (out @ err)" "parse_output pf (out @ err) = Inr (lat, loss)"
    by blast
  then show "\<exists>out err. run (nat R - 1) = Completed 0 out err \<and>
               tail = last500 (out @ err) \<and> parse_output pf (out @ err) = Inr (lat, loss)"
    by blast
  from oe(2) show "length tail \<le> 500" by (simp add: length_last500)
next
  assume h: "\<forall>a<nat R. \<exists>e. ping_attempt pf (run a) = Failure e"
  from R have last: "nat R - 1 < nat R" by simp
  with h obtain e where e: "ping_attempt pf (run (nat R - 1)) = Failure e" by blast
  from h have fails: "\<forall>a\<in>set [0..<nat R - 1]. \<exists>e. ping_attempt pf (run a) = Failure e"
    by simp
  have res: "ping_ip pf run R =
      (False, None, None, if e = [] then ''ping failed after retries'' else e)"
    unfolding ping_ip_def upt_nat_last [OF R]
    by (rule ping_loop_last_failure [OF fails e])
  have shown: "(if e = [] then ''ping failed after retries'' else e) =
      (case run (nat R - 1) of
         Raised msg \<Rightarrow> ''ping error: '' @ msg
       | Completed rc out err \<Rightarrow>
           (case parse_output pf (out @ err) of
              Inl msg \<Rightarrow> ''ping error: '' @ msg
            | Inr _ \<Rightarrow> if out @ err = [] then ''ping failed after retries''
                       else last500 (out @ err)))"
  proof (cases "run (nat R - 1)")
    case (Raised msg)
    with ping_attempt_Failure_text [OF e] show ?thesis by simp
  next
    case (Completed rc out err)
    show ?thesis
    proof (cases "parse_output pf (out @ err)")
      case (Inl msg)
      with Completed ping_attempt_Failure_text [OF e] show ?thesis by simp
    next
      case (Inr p)
      with Completed ping_attempt_Failure_text [OF e]
      have "e = last500 (out @ err)" by simp
      with Completed Inr show ?thesis
        by (simp add: last500_Nil_iff del: append_is_Nil_conv)
    qed
  qed
  show "ping_ip pf run R =
      (False, None, None,
       (case run (nat R - 1) of
          Raised msg \<Rightarrow> ''ping error: '' @ msg
        | Completed rc out err \<Rightarrow>
            (case parse_output pf (out @ err) of
               Inl msg \<Rightarrow> ''ping error: '' @ msg
             | Inr _ \<Rightarrow> if out @ err = [] then ''ping failed after retries''
                        else last500 (out @ err))))"
    unfolding res shown ..
qed

lemma attempt_timed_out:
  "ping_attempt win_platform (Completed 1 ''Request timed out.'' []) =
     Failure ''Request timed out.''"
  by code_simp

lemma attempt_reply:
  "ping_attempt win_platform
     (Completed 0 ''Reply from 10.0.0.5: bytes=32 time=4ms TTL=64'' []) =
   Success None None ''Reply from 10.0.0.5: bytes=32 time=4ms TTL=64''"
  by code_simp

lemma attempt_raised:
  "ping_attempt pf (Raised msg) = Failure (''ping error: '' @ msg)"
  by (simp add: ping_attempt_def)

theorem ping_ip_retries_witness:
  "ping_ip win_platform fail_then_reply 2 =
     (True, None, None, ''Reply from 10.0.0.5: bytes=32 time=4ms TTL=64'') \<and>
   ping_ip win_platform fail_then_raise 2 = (False, None, None, ''ping error: timed out'')"
proof
  have two: "(0::int) < 2" by simp
  have first: "(\<forall>a<nat 2 - 1. \<exists>e. ping_attempt win_platform (fail_then_reply a) = Failure e) \<and>
      ping_attempt win_platform (fail_then_reply (nat 2 - 1)) =
        Success None None ''Reply from 10.0.0.5: bytes=32 time=4ms TTL=64''"
    by (simp add: fail_then_reply_def attempt_timed_out attempt_reply)
  from ping_ip_retries [OF two, THEN conjunct1, THEN mp, OF first]
  show "ping_ip win_platform fail_then_reply 2 =
     (True, None, None, ''Reply from 10.0.0.5: bytes=32 time=4ms TTL=64'')"
    by (rule conjunct1)
next
  have two: "(0::int) < 2" by simp
  have all: "\<forall>a<nat 2. \<exists>e. ping_attempt win_platform (fail_then_raise a) = Failure e"
    by (simp add: fail_then_raise_def attempt_timed_out attempt_raised)
  have final: "fail_then_raise (nat 2 - 1) = Raised ''timed out''"
    by (simp add: fail_then_raise_def)
  from ping_ip_retries [OF two, THEN conjunct2, THEN mp, OF all]
  show "ping_ip win_platform fail_then_raise 2 = (False, None, None, ''ping error: timed out'')"
    unfolding final by simp
qed

text \<open>
  C6 as stated fails when the last failing attempt printed nothing: the text returned
  is the fixed one of line 155, not the (empty) tail of that attempt.
\<close>

theorem empty_tail_counterexample:
  "last500 ([] @ []) = [] \<and>
   ping_ip win_platform (\<lambda>_. Completed 1 [] []) 1 =
     (False, None, None, ''ping failed after retries'')"
  by code_simp

section \<open>Properties of the resolver\<close>



lemma re_search_SomeD:
  "re_search m s = Some r \<Longrightarrow> \<exists>k\<le>length s. m (drop k s) = Some r"
proof (induction s)
  case Nil
  then show ?case by simp
next
  case (Cons c cs)
  show ?case
  proof (cases "m (c # cs)")
    case None
    with Cons.prems have "re_search m cs = Some r" by simp
    from Cons.IH [OF this] obtain k where "k \<le> length cs" "m (drop k cs) = Some r" by blast
    then have "Suc k \<le> length (c # cs) \<and> m (drop (Suc k) (c # cs)) = Some r" by simp
    then show ?thesis by blast
  next
    case (Some r')
    with Cons.prems have "m (drop 0 (c # cs)) = Some r" by simp
    then show ?thesis by blast
  qed
qed

lemma upper_char_hex_all:
  "list_all (\<lambda>c. length (upper_char c) = 1 \<and> hd (upper_char c) \<in> set ''0123456789ABCDEF'')
     ''0123456789ABCDEFabcdef''"
  by code_simp

lemma upper_char_hex:
  "is_hex c \<Longrightarrow> length (upper_char c) = 1 \<and> hd (upper_char c) \<in> set ''0123456789ABCDEF''"
  using upper_char_hex_all unfolding is_hex_def list_all_iff by blast

lemma upper_char_colon: "upper_char CHR '':'' = '':''"
  by code_simp

lemma py_upper_singletons:
  "\<forall>c\<in>set xs. length (upper_char c) = 1 \<Longrightarrow> py_upper xs = map (\<lambda>c. hd (upper_char c)) xs"
proof (induction xs)
  case Nil
  show ?case by (simp add: py_upper_def)
next
  case (Cons x xs)
  then have "length (upper_char x) = 1" by simp
  then have "upper_char x = [hd (upper_char x)]"
    by (cases "upper_char x") simp_all
  with Cons show ?case by (simp add: py_upper_def)
qed

lemma is_hex_not_sep: "is_hex c \<Longrightarrow> c \<noteq> CHR ''-'' \<and> c \<noteq> CHR '':''"
  by (auto simp: is_hex_def)

lemma upper_hex_or_colon:
  "is_hex c \<or> c = CHR '':'' \<Longrightarrow> length (upper_char c) = 1"
  using upper_char_hex [of c] upper_char_colon by auto

lemma normalize_sep_canonical:
  assumes "mac_sep_at s"
  shows "is_canonical_mac (normalize_mac (take 17 s))"
proof -
  let ?f = "\<lambda>c. if c = CHR ''-'' then CHR '':'' else c"
  let ?g = "\<lambda>c. hd (upper_char c)"
  from assms have len: "17 \<le> length s"
    and pat: "\<And>i. i < 17 \<Longrightarrow>
        (if i mod 3 = 2 then s ! i = CHR '':'' \<or> s ! i = CHR ''-'' else is_hex (s ! i))"
    by (simp_all add: mac_sep_at_def list_all_iff)
  have m1: "replace_hyphen (take 17 s) = map ?f (take 17 s)"
    by (simp add: replace_hyphen_def)
  have at: "\<And>i. i < 17 \<Longrightarrow> map ?f (take 17 s) ! i = ?f (s ! i)"
    using len by simp
  have ok: "\<And>i. i < 17 \<Longrightarrow> is_hex (?f (s ! i)) \<or> ?f (s ! i) = CHR '':''"
  proof -
    fix i :: nat assume i: "i < 17"
    from pat [OF i] show "is_hex (?f (s ! i)) \<or> ?f (s ! i) = CHR '':''"
      by (cases "i mod 3 = 2") (auto dest: is_hex_not_sep)
  qed
  have single: "\<forall>c\<in>set (map ?f (take 17 s)). length (upper_char c) = 1"
  proof
    fix c assume "c \<in> set (map ?f (take 17 s))"
    then have "\<exists>i<length (map ?f (take 17 s)). map ?f (take 17 s) ! i = c"
      by (simp only: in_set_conv_nth)
    then obtain i where i: "i < length (map ?f (take 17 s))" and c: "c = map ?f (take 17 s) ! i"
      by blast
    from i len have i17: "i < 17" by simp
    from c at [OF i17] ok [OF i17] show "length (upper_char c) = 1"
      by (simp only: upper_hex_or_colon)
  qed
  have norm: "normalize_mac (take 17 s) = map ?g (map ?f (take 17 s))"
    using len by (simp add: normalize_mac_def m1 py_upper_singletons [OF single])
  have "\<And>i. i < 17 \<Longrightarrow>
      (if i mod 3 = 2 then map ?g (map ?f (take 17 s)) ! i = CHR '':''
       else map ?g (map ?f (take 17 s)) ! i \<in> set ''0123456789ABCDEF'')"
  proof -
    fix i :: nat assume i: "i < 17"
    have nth: "map ?g (map ?f (take 17 s)) ! i = ?g (?f (s ! i))"
      using len i by simp
    show "(if i mod 3 = 2 then map ?g (map ?f (take 17 s)) ! i = CHR '':''
       else map ?g (map ?f (take 17 s)) ! i \<in> set ''0123456789ABCDEF'')"
    proof (cases "i mod 3 = 2")
      case True
      with pat [OF i] have "?f (s ! i) = CHR '':''" by auto
      with True nth show ?thesis by (simp add: upper_char_colon)
    next
      case False
      with pat [OF i] have h: "is_hex (s ! i)" by simp
      then have "?f (s ! i) = s ! i" by (auto dest: is_hex_not_sep)
      with False nth upper_char_hex [OF h] show ?thesis by simp
    qed
  qed
  note canon = this
  have "\<forall>i\<in>set [0..<17].
      (if i mod 3 = 2 then map ?g (map ?f (take 17 s)) ! i = CHR '':''
       else map ?g (map ?f (take 17 s)) ! i \<in> set ''0123456789ABCDEF'')"
  proof
    fix i :: nat assume "i \<in> set [0..<17]"
    then have "i < 17" by simp
    then show "(if i mod 3 = 2 then map ?g (map ?f (take 17 s)) ! i = CHR '':''
       else map ?g (map ?f (take 17 s)) ! i \<in> set ''0123456789ABCDEF'')"
      by (rule canon)
  qed
  moreover have "length (map ?g (map ?f (take 17 s))) = 17"
    using len by simp
  ultimately show ?thesis
    unfolding is_canonical_mac_def norm list_all_iff by (rule conjI [rotated])
qed


lemma upt17: "[0..<17] = [0, 1, 2, 3, 4, 5, 6, 7, 8, 9, 10, 11, 12, 13, 14, 15, 16]"
  by code_simp

lemma list12:
  assumes "length (m :: 'a list) = 12"
  obtains a0 a1 a2 a3 a4 a5 a6 a7 a8 a9 a10 a11
  where "m = [a0, a1, a2, a3, a4, a5, a6, a7, a8, a9, a10, a11]"
proof -
  from assms have "length m = Suc (Suc (Suc (Suc (Suc (Suc (Suc (Suc (Suc (Suc (Suc (Suc 0)))))))))))"
    by simp
  then show ?thesis
    using that by (auto simp: length_Suc_conv)
qed

lemma normalize_bare_canonical:
  assumes "mac_bare_at s"
  shows "is_canonical_mac (normalize_mac (take 12 s))"
proof -
  from assms have len: "length (take 12 s) = 12" and hex: "\<forall>c\<in>set (take 12 s). is_hex c"
    by (simp_all add: mac_bare_at_def list_all_iff)
  from len obtain a0 a1 a2 a3 a4 a5 a6 a7 a8 a9 a10 a11
    where m: "take 12 s = [a0, a1, a2, a3, a4, a5, a6, a7, a8, a9, a10, a11]"
    by (rule list12)
  from hex have "replace_hyphen (take 12 s) = take 12 s"
    unfolding replace_hyphen_def by (intro map_idI) (auto dest: is_hex_not_sep)
  then have n1: "normalize_mac (take 12 s) = py_upper (colon_pairs (take 12 s))"
    using len by (simp add: normalize_mac_def)
  have cp: "colon_pairs [a0, a1, a2, a3, a4, a5, a6, a7, a8, a9, a10, a11] =
      [a0, a1, CHR '':'', a2, a3, CHR '':'', a4, a5, CHR '':'', a6, a7, CHR '':'',
       a8, a9, CHR '':'', a10, a11]"
    by (simp add: colon_pairs_def)
  from hex m have h: "is_hex a0" "is_hex a1" "is_hex a2" "is_hex a3" "is_hex a4" "is_hex a5"
      "is_hex a6" "is_hex a7" "is_hex a8" "is_hex a9" "is_hex a10" "is_hex a11"
    by simp_all
  have up: "\<And>c. is_hex c \<Longrightarrow> upper_char c = [hd (upper_char c)]"
  proof -
    fix c assume "is_hex c"
    then have "length (upper_char c) = 1" by (simp add: upper_char_hex)
    then show "upper_char c = [hd (upper_char c)]" by (cases "upper_char c") simp_all
  qed
  have hd_ok: "\<And>c. is_hex c \<Longrightarrow> hd (upper_char c) \<in> set ''0123456789ABCDEF''"
    by (simp only: upper_char_hex)
  let ?u = "\<lambda>c. hd (upper_char c)"
  have "py_upper (colon_pairs (take 12 s)) =
      [?u a0, ?u a1, CHR '':'', ?u a2, ?u a3, CHR '':'', ?u a4, ?u a5, CHR '':'', ?u a6, ?u a7,
       CHR '':'', ?u a8, ?u a9, CHR '':'', ?u a10, ?u a11]"
    unfolding m cp py_upper_def
    using up [OF h(1)] up [OF h(2)] up [OF h(3)] up [OF h(4)] up [OF h(5)] up [OF h(6)]
      up [OF h(7)] up [OF h(8)] up [OF h(9)] up [OF h(10)] up [OF h(11)] up [OF h(12)]
    by (simp add: upper_char_colon)
  then show ?thesis
    unfolding n1 is_canonical_mac_def upt17
    using hd_ok [OF h(1)] hd_ok [OF h(2)] hd_ok [OF h(3)] hd_ok [OF h(4)] hd_ok [OF h(5)]
      hd_ok [OF h(6)] hd_ok [OF h(7)] hd_ok [OF h(8)] hd_ok [OF h(9)] hd_ok [OF h(10)]
      hd_ok [OF h(11)] hd_ok [OF h(12)]
    by simp
qed

lemma match_mac_sep_Some:
  "match_mac_sep s = Some r \<longleftrightarrow> mac_sep_at s \<and> r = take 17 s"
  by (auto simp: match_mac_sep_def)


lemma match_mac_bare_Some:
  "match_mac_bare s = Some r \<longleftrightarrow> mac_bare_at s \<and> r = take 12 s"
  by (auto simp: match_mac_bare_def)


lemma get_mac_address_Raised: "get_mac_address pf ping_po (Raised e) = None"
  by (simp add: get_mac_address_def)

lemma get_mac_address_Completed:
  "get_mac_address pf ping_po (Completed rc out err) =
     (case re_search match_mac_sep (out @ err) of
        Some m \<Rightarrow> Some (normalize_mac m)
      | None \<Rightarrow> (case re_search match_mac_bare (out @ err) of
                    Some m \<Rightarrow> Some (normalize_mac m)
                  | None \<Rightarrow> None))"
  by (simp add: get_mac_address_def Let_def)

lemma get_mac_address_canonical:
  assumes "get_mac_address pf ping_po arp_po = Some m"
  shows "is_canonical_mac m"
proof (cases arp_po)
  case (Raised e)
  with assms show ?thesis by (simp add: get_mac_address_Raised)
next
  case (Completed rc out err)
  show ?thesis
  proof (cases "re_search match_mac_sep (out @ err)")
    case (Some r)
    from re_search_SomeD [OF Some] obtain k where "match_mac_sep (drop k (out @ err)) = Some r"
      by blast
    then have "mac_sep_at (drop k (out @ err))" and "r = take 17 (drop k (out @ err))"
      by (simp_all add: match_mac_sep_Some)
    then have "is_canonical_mac (normalize_mac r)"
      by (simp only: normalize_sep_canonical)
    with assms Completed Some show ?thesis
      by (simp add: get_mac_address_Completed)
  next
    case None
    show ?thesis
    proof (cases "re_search match_mac_bare (out @ err)")
      case (Some r)
      from re_search_SomeD [OF Some] obtain k where "match_mac_bare (drop k (out @ err)) = Some r"
        by blast
      then have "mac_bare_at (drop k (out @ err))" and "r = take 12 (drop k (out @ err))"
        by (simp_all add: match_mac_bare_Some)
      then have "is_canonical_mac (normalize_mac r)"
        by (simp only: normalize_bare_canonical)
      with assms Completed None Some show ?thesis
        by (simp add: get_mac_address_Completed)
    next
      case None2: None
      with assms Completed None show ?thesis
        by (simp add: get_mac_address_Completed)
    qed
  qed
qed









section \<open>Properties of the scanner\<close>

lemma first_result_None:
  "\<forall>i\<in>set xs. f i = None \<Longrightarrow> first_result f xs = None"
  by (induction xs) simp_all

lemma first_result_unique:
  "k \<in> set xs \<Longrightarrow> f k = Some r \<Longrightarrow> r \<noteq> [] \<Longrightarrow> \<forall>j\<in>set xs. j \<noteq> k \<longrightarrow> f j = None \<Longrightarrow>
   first_result f xs = Some r"
proof (induction xs)
  case Nil
  then show ?case by simp
next
  case (Cons x xs)
  show ?case
  proof (cases "x = k")
    case True
    with Cons.prems(2,3) show ?thesis by simp
  next
    case False
    with Cons.prems(4) have "f x = None" by simp
    moreover from False Cons.prems(1) have "k \<in> set xs" by simp
    moreover from Cons.prems(4) have "\<forall>j\<in>set xs. j \<noteq> k \<longrightarrow> f j = None" by simp
    ultimately show ?thesis
      using Cons.IH Cons.prems(2,3) by simp
  qed
qed

lemma str_nat_not_Nil: "str_nat n \<noteq> []"
  by (subst str_nat.simps) simp

lemma check_ip_late:
  "of_int timeout_sec < unit_begin w suffix - start_time w \<Longrightarrow>
   check_ip pf w mac_normalized network_prefix timeout_sec suffix = None"
  by (simp add: check_ip_def)

lemma check_ip_match:
  "unit_begin w suffix - start_time w \<le> of_int timeout_sec \<Longrightarrow>
   get_mac_address pf (unit_ping w suffix) (unit_arp w suffix) = Some fm \<Longrightarrow>
   py_upper fm = mac_normalized \<Longrightarrow>
   check_ip pf w mac_normalized network_prefix timeout_sec suffix =
     Some (network_prefix @ str_nat suffix)"
proof -
  assume a: "unit_begin w suffix - start_time w \<le> of_int timeout_sec"
    and b: "get_mac_address pf (unit_ping w suffix) (unit_arp w suffix) = Some fm"
    and c: "py_upper fm = mac_normalized"
  from b have "is_canonical_mac fm" by (rule get_mac_address_canonical)
  then have "fm \<noteq> []" by (auto simp: is_canonical_mac_def)
  with a b c show ?thesis by (simp add: check_ip_def Let_def)
qed

lemma check_ip_no_match:
  "\<not> (\<exists>fm. get_mac_address pf (unit_ping w suffix) (unit_arp w suffix) = Some fm \<and>
          py_upper fm = mac_normalized) \<Longrightarrow>
   check_ip pf w mac_normalized network_prefix timeout_sec suffix = None"
  by (cases "get_mac_address pf (unit_ping w suffix) (unit_arp w suffix)")
     (simp_all add: check_ip_def Let_def)

lemma scan_unique:
  assumes "k \<in> set (completed w)"
    and "unit_begin w k - start_time w \<le> of_int timeout_sec"
    and "get_mac_address pf (unit_ping w k) (unit_arp w k) = Some fm"
    and "py_upper fm = replace_hyphen (py_upper target)"
    and "\<forall>j\<in>set (completed w). j \<noteq> k \<longrightarrow>
           \<not> (\<exists>fm. get_mac_address pf (unit_ping w j) (unit_arp w j) = Some fm \<and>
                  py_upper fm = replace_hyphen (py_upper target))"
  shows "scan_network_for_mac pf w target network_prefix timeout_sec =
           Some (network_prefix @ str_nat k)"
proof -
  let ?f = "check_ip pf w (replace_hyphen (py_upper target)) network_prefix timeout_sec"
  have "?f k = Some (network_prefix @ str_nat k)"
    using assms(2,3,4) by (rule check_ip_match)
  moreover have "network_prefix @ str_nat k \<noteq> []"
    by (simp add: str_nat_not_Nil)
  moreover have "\<forall>j\<in>set (completed w). j \<noteq> k \<longrightarrow> ?f j = None"
    using assms(5) by (auto intro: check_ip_no_match)
  ultimately have "first_result ?f (completed w) = Some (network_prefix @ str_nat k)"
    using assms(1) by (intro first_result_unique)
  then show ?thesis by (simp add: scan_network_for_mac_def)
qed

lemma upper_char_no_hyphen:
  assumes "c \<noteq> CHR ''-''"
  shows "CHR ''-'' \<notin> set (upper_char c)"
proof -
  have "char_of (of_char c - 32 :: nat) \<noteq> CHR ''-''"
    if "(97 \<le> (of_char c :: nat) \<and> (of_char c :: nat) \<le> 122) \<or>
        (224 \<le> (of_char c :: nat) \<and> (of_char c :: nat) \<le> 254)"
  proof
    assume "char_of (of_char c - 32 :: nat) = CHR ''-''"
    then have "(of_char (char_of (of_char c - 32 :: nat)) :: nat) = of_char CHR ''-''"
      by simp
    then have "(of_char c - 32 :: nat) mod 256 = 45" by simp
    with that show False by auto
  qed
  with assms show ?thesis
    by (auto simp: upper_char_def Let_def)
qed

lemma py_upper_no_hyphen:
  "CHR ''-'' \<notin> set s \<Longrightarrow> replace_hyphen (py_upper s) = py_upper s"
proof -
  assume s: "CHR ''-'' \<notin> set s"
  have "\<forall>x\<in>set s. CHR ''-'' \<notin> set (upper_char x)"
  proof
    fix x assume "x \<in> set s"
    with s have "x \<noteq> CHR ''-''" by blast
    then show "CHR ''-'' \<notin> set (upper_char x)" by (rule upper_char_no_hyphen)
  qed
  then have "CHR ''-'' \<notin> set (py_upper s)"
    by (simp add: py_upper_def)
  then show ?thesis
    unfolding replace_hyphen_def by (intro map_idI) auto
qed


lemma resolve_arp_line_9:
  "get_mac_address win_platform (Raised ''timed out'') (Completed 0 arp_line_9 []) =
     Some ''AA:BB:CC:DD:EE:FF''"
  by code_simp

lemma resolve_no_arp_entry:
  "get_mac_address win_platform (Raised ''timed out'') no_arp_entry = None"
  by code_simp

lemma upper_canonical_example: "py_upper ''AA:BB:CC:DD:EE:FF'' = ''AA:BB:CC:DD:EE:FF''"
  by code_simp

lemma upper_lower_example: "py_upper ''aa:bb:cc:dd:ee:ff'' = ''AA:BB:CC:DD:EE:FF''"
  by code_simp

lemma upper_other_example: "py_upper ''AA:BB:CC:DD:EE:00'' = ''AA:BB:CC:DD:EE:00''"
  by code_simp

lemma str_nat_9: "str_nat 9 = ''9''"
  by code_simp

lemma ex_scan_fields:
  "start_time ex_scan = 1000" "unit_begin ex_scan j = 1001"
  "unit_ping ex_scan j = Raised ''timed out''"
  "unit_arp ex_scan j = (if j = 9 then Completed 0 arp_line_9 [] else no_arp_entry)"
  "completed ex_scan = [1..<255]"
  by (simp_all add: ex_scan_def)

lemma ex_scan_resolves:
  "get_mac_address win_platform (unit_ping ex_scan j) (unit_arp ex_scan j) =
     (if j = 9 then Some ''AA:BB:CC:DD:EE:FF'' else None)"
  by (simp add: ex_scan_fields resolve_arp_line_9 resolve_no_arp_entry)

text \<open>
  C5. The target has no hyphen (it is a cached MAC, in canonical form) and
  \<open>as_completed\<close> hands over the futures of the suffixes 1..254 in any order. If
  exactly one suffix resolves to a MAC equal to the target up to case, and its unit
  begins within the deadline, the scan returns the address of that suffix; if no suffix
  resolves to such a MAC, the scan returns \<open>None\<close>.
\<close>

theorem scan_finds_the_unique_match:
  assumes "CHR ''-'' \<notin> set target" and "set (completed w) = {1..254}"
  shows "(\<forall>k\<in>{1..254}.
            unit_begin w k - start_time w \<le> of_int timeout_sec \<and>
            (\<exists>fm. get_mac_address pf (unit_ping w k) (unit_arp w k) = Some fm \<and>
                  py_upper fm = py_upper target) \<and>
            (\<forall>j\<in>{1..254}. j \<noteq> k \<longrightarrow>
               \<not> (\<exists>fm. get_mac_address pf (unit_ping w j) (unit_arp w j) = Some fm \<and>
                      py_upper fm = py_upper target)) \<longrightarrow>
            scan_network_for_mac pf w target network_prefix timeout_sec =
              Some (network_prefix @ str_nat k)) \<and>
         ((\<forall>j\<in>{1..254}.
             \<not> (\<exists>fm. get_mac_address pf (unit_ping w j) (unit_arp w j) = Some fm \<and>
                    py_upper fm = py_upper target)) \<longrightarrow>
            scan_network_for_mac pf w target network_prefix timeout_sec = None)"
proof (intro conjI ballI impI)
  note norm = py_upper_no_hyphen [OF assms(1)]
  fix k :: nat
  assume k: "k \<in> {1..254}"
    and h: "unit_begin w k - start_time w \<le> of_int timeout_sec \<and>
            (\<exists>fm. get_mac_address pf (unit_ping w k) (unit_arp w k) = Some fm \<and>
                  py_upper fm = py_upper target) \<and>
            (\<forall>j\<in>{1..254}. j \<noteq> k \<longrightarrow>
               \<not> (\<exists>fm. get_mac_address pf (unit_ping w j) (unit_arp w j) = Some fm \<and>
                      py_upper fm = py_upper target))"
  from h obtain fm where fm: "get_mac_address pf (unit_ping w k) (unit_arp w k) = Some fm"
      "py_upper fm = py_upper target"
    by blast
  show "scan_network_for_mac pf w target network_prefix timeout_sec =
          Some (network_prefix @ str_nat k)"
  proof (rule scan_unique [where fm = fm])
    from k assms(2) show "k \<in> set (completed w)" by simp
    from h show "unit_begin w k - start_time w \<le> of_int timeout_sec" by simp
    from fm show "get_mac_address pf (unit_ping w k) (unit_arp w k) = Some fm" by simp
    from fm show "py_upper fm = replace_hyphen (py_upper target)" by (simp add: norm)
    from h show "\<forall>j\<in>set (completed w). j \<noteq> k \<longrightarrow>
           \<not> (\<exists>fm. get_mac_address pf (unit_ping w j) (unit_arp w j) = Some fm \<and>
                  py_upper fm = replace_hyphen (py_upper target))"
      unfolding assms(2) norm by blast
  qed
next
  note norm = py_upper_no_hyphen [OF assms(1)]
  let ?f = "check_ip pf w (replace_hyphen (py_upper target)) network_prefix timeout_sec"
  assume h: "\<forall>j\<in>{1..254}.
             \<not> (\<exists>fm. get_mac_address pf (unit_ping w j) (unit_arp w j) = Some fm \<and>
                    py_upper fm = py_upper target)"
  have "\<forall>j\<in>set (completed w). ?f j = None"
  proof
    fix j assume "j \<in> set (completed w)"
    with assms(2) h
    have "\<not> (\<exists>fm. get_mac_address pf (unit_ping w j) (unit_arp w j) = Some fm \<and>
                    py_upper fm = replace_hyphen (py_upper target))"
      unfolding norm by blast
    then show "?f j = None" by (rule check_ip_no_match)
  qed
  then have "first_result ?f (completed w) = None" by (rule first_result_None)
  then show "scan_network_for_mac pf w target network_prefix timeout_sec = None"
    by (simp add: scan_network_for_mac_def)
qed

theorem scan_finds_the_unique_match_witness:
  "scan_network_for_mac win_platform ex_scan ''aa:bb:cc:dd:ee:ff'' ''10.0.0.'' 30 =
     Some ''10.0.0.9'' \<and>
   scan_network_for_mac win_platform ex_scan ''AA:BB:CC:DD:EE:00'' ''10.0.0.'' 30 = None"
proof
  have t: "CHR ''-'' \<notin> set ''aa:bb:cc:dd:ee:ff''" by simp
  have c: "set (completed ex_scan) = {1..254}" by (auto simp: ex_scan_fields)
  have nine: "(9::nat) \<in> {1..254}" by simp
  have h: "unit_begin ex_scan 9 - start_time ex_scan \<le> of_int 30 \<and>
      (\<exists>fm. get_mac_address win_platform (unit_ping ex_scan 9) (unit_arp ex_scan 9) = Some fm \<and>
            py_upper fm = py_upper ''aa:bb:cc:dd:ee:ff'') \<and>
      (\<forall>j\<in>{1..254}. j \<noteq> 9 \<longrightarrow>
         \<not> (\<exists>fm. get_mac_address win_platform (unit_ping ex_scan j) (unit_arp ex_scan j) = Some fm \<and>
                py_upper fm = py_upper ''aa:bb:cc:dd:ee:ff''))"
    by (simp add: ex_scan_resolves upper_lower_example upper_canonical_example)
       (simp add: ex_scan_fields)
  from scan_finds_the_unique_match [OF t c, of 30 win_platform "''10.0.0.''"]
  have "\<forall>k\<in>{1..254}.
      unit_begin ex_scan k - start_time ex_scan \<le> of_int 30 \<and>
      (\<exists>fm. get_mac_address win_platform (unit_ping ex_scan k) (unit_arp ex_scan k) = Some fm \<and>
            py_upper fm = py_upper ''aa:bb:cc:dd:ee:ff'') \<and>
      (\<forall>j\<in>{1..254}. j \<noteq> k \<longrightarrow>
         \<not> (\<exists>fm. get_mac_address win_platform (unit_ping ex_scan j) (unit_arp ex_scan j) = Some fm \<and>
                py_upper fm = py_upper ''aa:bb:cc:dd:ee:ff'')) \<longrightarrow>
      scan_network_for_mac win_platform ex_scan ''aa:bb:cc:dd:ee:ff'' ''10.0.0.'' 30 =
        Some (''10.0.0.'' @ str_nat k)"
    by (rule conjunct1)
  from this [rule_format, OF nine h]
  show "scan_network_for_mac win_platform ex_scan ''aa:bb:cc:dd:ee:ff'' ''10.0.0.'' 30 =
     Some ''10.0.0.9''"
    by (simp add: str_nat_9)
next
  have t: "CHR ''-'' \<notin> set ''AA:BB:CC:DD:EE:00''" by simp
  have c: "set (completed ex_scan) = {1..254}" by (auto simp: ex_scan_fields)
  have h: "\<forall>j\<in>{1..254}.
      \<not> (\<exists>fm. get_mac_address win_platform (unit_ping ex_scan j) (unit_arp ex_scan j) = Some fm \<and>
             py_upper fm = py_upper ''AA:BB:CC:DD:EE:00'')"
    by (simp add: ex_scan_resolves upper_other_example upper_canonical_example)
  from scan_finds_the_unique_match [OF t c, of 30 win_platform "''10.0.0.''",
      THEN conjunct2, THEN mp, OF h]
  show "scan_network_for_mac win_platform ex_scan ''AA:BB:CC:DD:EE:00'' ''10.0.0.'' 30 = None" .
qed

text \<open>
  C4 (as amended). The deadline is read when a unit begins: if every unit whose
  resolution matches the target begins after the deadline, the scan returns \<open>None\<close>.
\<close>

theorem scan_skips_units_begun_late:
  assumes "\<forall>j\<in>set (completed w).
      (\<exists>fm. get_mac_address pf (unit_ping w j) (unit_arp w j) = Some fm \<and>
            py_upper fm = replace_hyphen (py_upper target)) \<longrightarrow>
      of_int timeout_sec < unit_begin w j - start_time w"
  shows "scan_network_for_mac pf w target network_prefix timeout_sec = None"
proof -
  let ?f = "check_ip pf w (replace_hyphen (py_upper target)) network_prefix timeout_sec"
  have "\<forall>j\<in>set (completed w). ?f j = None"
  proof
    fix j assume j: "j \<in> set (completed w)"
    show "?f j = None"
    proof (cases "\<exists>fm. get_mac_address pf (unit_ping w j) (unit_arp w j) = Some fm \<and>
            py_upper fm = replace_hyphen (py_upper target)")
      case True
      with assms j have "of_int timeout_sec < unit_begin w j - start_time w" by blast
      then show ?thesis by (rule check_ip_late)
    next
      case False
      then show ?thesis by (rule check_ip_no_match)
    qed
  qed
  then have "first_result ?f (completed w) = None" by (rule first_result_None)
  then show ?thesis by (simp add: scan_network_for_mac_def)
qed

lemma late_scan_fields:
  "start_time late_scan = 1000" "unit_begin late_scan j = (if j = 9 then 1031 else 1001)"
  "unit_ping late_scan j = Raised ''timed out''"
  "unit_arp late_scan j = (if j = 9 then Completed 0 arp_line_9 [] else no_arp_entry)"
  "completed late_scan = [1..<255]"
  by (simp_all add: late_scan_def ex_scan_def)

theorem scan_skips_units_begun_late_witness:
  "scan_network_for_mac win_platform late_scan ''AA:BB:CC:DD:EE:FF'' ''10.0.0.'' 30 = None"
proof (rule scan_skips_units_begun_late)
  show "\<forall>j\<in>set (completed late_scan).
      (\<exists>fm. get_mac_address win_platform (unit_ping late_scan j) (unit_arp late_scan j) = Some fm \<and>
            py_upper fm = replace_hyphen (py_upper ''AA:BB:CC:DD:EE:FF'')) \<longrightarrow>
      of_int 30 < unit_begin late_scan j - start_time late_scan"
    by (simp add: late_scan_fields resolve_arp_line_9 resolve_no_arp_entry)
qed

lemma slow_scan_fields:
  "start_time slow_scan = 1000" "unit_begin slow_scan j = 1029" "unit_end slow_scan j = 1035"
  "unit_ping slow_scan j = Raised ''timed out''"
  "unit_arp slow_scan j = (if j = 9 then Completed 0 arp_line_9 [] else no_arp_entry)"
  "completed slow_scan = [1..<255]"
  by (simp_all add: slow_scan_def ex_scan_def)

lemma replace_hyphen_example:
  "replace_hyphen (py_upper ''AA:BB:CC:DD:EE:FF'') = ''AA:BB:CC:DD:EE:FF''"
  by code_simp

text \<open>
  C4 as stated fails: in \<open>slow_scan\<close> the only matching resolution, that of 10.0.0.9,
  begins 29 s after the start and completes 35 s after it, past the 30 s of the
  deadline, and the scan still returns its address.
\<close>

theorem late_completion_counterexample:
  "of_int 30 < unit_end slow_scan 9 - start_time slow_scan \<and>
   list_all (\<lambda>j. j = 9 \<or>
       get_mac_address win_platform (unit_ping slow_scan j) (unit_arp slow_scan j) = None)
     (completed slow_scan) \<and>
   scan_network_for_mac win_platform slow_scan ''AA:BB:CC:DD:EE:FF'' ''10.0.0.'' 30 =
     Some ''10.0.0.9''"
proof (intro conjI)
  show "of_int 30 < unit_end slow_scan 9 - start_time slow_scan"
    by (simp add: slow_scan_fields)
  show "list_all (\<lambda>j. j = 9 \<or>
       get_mac_address win_platform (unit_ping slow_scan j) (unit_arp slow_scan j) = None)
     (completed slow_scan)"
    by (simp add: list_all_iff slow_scan_fields resolve_no_arp_entry)
  have "scan_network_for_mac win_platform slow_scan ''AA:BB:CC:DD:EE:FF'' ''10.0.0.'' 30 =
     Some (''10.0.0.'' @ str_nat 9)"
  proof (rule scan_unique [where fm = "''AA:BB:CC:DD:EE:FF''"])
    show "9 \<in> set (completed slow_scan)" by (simp add: slow_scan_fields)
    show "unit_begin slow_scan 9 - start_time slow_scan \<le> of_int 30"
      by (simp add: slow_scan_fields)
    show "get_mac_address win_platform (unit_ping slow_scan 9) (unit_arp slow_scan 9) =
        Some ''AA:BB:CC:DD:EE:FF''"
      by (simp add: slow_scan_fields resolve_arp_line_9)
    show "py_upper ''AA:BB:CC:DD:EE:FF'' = replace_hyphen (py_upper ''AA:BB:CC:DD:EE:FF'')"
      unfolding replace_hyphen_example by (rule upper_canonical_example)
    show "\<forall>j\<in>set (completed slow_scan). j \<noteq> 9 \<longrightarrow>
        \<not> (\<exists>fm. get_mac_address win_platform (unit_ping slow_scan j) (unit_arp slow_scan j) =
                Some fm \<and>
              py_upper fm = replace_hyphen (py_upper ''AA:BB:CC:DD:EE:FF''))"
      by (simp add: slow_scan_fields resolve_no_arp_entry)
  qed
  then show "scan_network_for_mac win_platform slow_scan ''AA:BB:CC:DD:EE:FF'' ''10.0.0.'' 30 =
     Some ''10.0.0.9''"
    by (simp add: str_nat_9)
qed

section \<open>Properties of the monitoring cycle\<close>

lemma subprocess_run_str: "subprocess_run (JStr s) po = po"
  by (simp add: subprocess_run_def)

lemma ping_address_str: "ping_address pf (JStr s) run retry = ping_ip pf run retry"
  by (simp add: ping_address_def subprocess_run_str)

lemma resolve_address_str:
  "resolve_address pf (JStr s) ping_po arp_po = get_mac_address pf ping_po arp_po"
  by (simp add: resolve_address_def subprocess_run_str)

lemma ping_loop_fails_shape:
  "\<forall>a\<in>set as. \<exists>e. ping_attempt pf (run a) = Failure e \<Longrightarrow>
   \<exists>txt. ping_loop pf run as le = (False, None, None, txt)"
  by (induction as arbitrary: le) auto

lemma ping_address_other:
  "\<exists>txt. ping_address pf (JOther t) run retry = (False, None, None, txt)"
proof -
  have "\<forall>a\<in>set [0..<nat retry].
      \<exists>e. ping_attempt pf (subprocess_run (JOther t) (run a)) = Failure e"
    by (simp add: subprocess_run_def ping_attempt_def)
  from ping_loop_fails_shape [OF this] show ?thesis
    by (simp add: ping_address_def ping_ip_def)
qed

lemma resolve_address_canonical:
  "resolve_address pf addr ping_po arp_po = Some m \<Longrightarrow> is_canonical_mac m"
  unfolding resolve_address_def by (rule get_mac_address_canonical)

lemma is_suspicious_str:
  "is_suspicious pf (JStr s) r a =
     Inr (r \<and> (case a of None \<Rightarrow> False | Some x \<Rightarrow> gt_500 pf x) \<and>
          (startswith s ''192.168.'' \<or> startswith s ''10.'' \<or> startswith s ''172.''))"
  by (cases r; cases a; simp add: is_suspicious_def)

lemma is_suspicious_other:
  "is_suspicious pf (JOther t) False a = Inr False"
  by (simp add: is_suspicious_def)


lemma cache_mac_None:
  "mac_cache k = None \<Longrightarrow>
   cache_mac mac_cache u k m addr t =
     Inr (mac_cache(k \<mapsto> \<lparr> mac = m, last_ip = addr, last_seen = t \<rparr>), True)"
  by (simp add: cache_mac_def)

lemma cache_mac_Some:
  "mac_cache k = Some e \<Longrightarrow>
   cache_mac mac_cache u k m addr t =
     Inr (if mac e = m then (mac_cache, u)
          else (mac_cache(k \<mapsto> \<lparr> mac = m, last_ip = addr, last_seen = t \<rparr>), True))"
  by (simp add: cache_mac_def dict_get_def)

lemma search_by_mac_Some:
  assumes "mac_cache k = Some e"
  shows "search_by_mac pf w k (r, a, l, JStr s, ma, ch, mac_cache, u) =
     Inr (if mac e = [] \<or> length (split_char CHR ''.'' s) \<noteq> 4
          then (r, a, l, JStr s, ma, ch, mac_cache, u)
          else
            (case scan_network_for_mac pf (scan w) (mac e)
                    (join_dot (take 3 (split_char CHR ''.'' s)) @ ''.'') 30 of
               None \<Rightarrow> (r, a, l, JStr s, ma, ch, mac_cache, u)
             | Some b \<Rightarrow>
                 if b = [] \<or> b = s then (r, a, l, JStr s, ma, ch, mac_cache, u)
                 else
                   (case ping_ip pf (second_ping w) 2 of
                      (r2, a2, l2, o2) \<Rightarrow>
                        if r2
                        then (r2, a2, l2, JStr b, ma, True,
                              mac_cache(k \<mapsto> e\<lparr>last_ip := JStr b, last_seen := reloc_time w\<rparr>),
                              True)
                        else (r2, a2, l2, JStr s, ma, True, mac_cache, u))))"
proof -
  have two: "\<And>b. (case set_field mac_cache k (\<lambda>e. e\<lparr>last_ip := JStr b\<rparr>) of
            Inl err \<Rightarrow> Inl err
          | Inr cache1 \<Rightarrow>
              (case set_field cache1 k (\<lambda>e. e\<lparr>last_seen := reloc_time w\<rparr>) of
                 Inl err \<Rightarrow> Inl err
               | Inr cache2 \<Rightarrow> Inr (F cache2))) =
        Inr (F (mac_cache(k \<mapsto> e\<lparr>last_ip := JStr b, last_seen := reloc_time w\<rparr>)))"
    for F :: "cache \<Rightarrow> 'z"
    by (simp add: assms set_field_def dict_get_def)
  show ?thesis
    unfolding search_by_mac_def
    by (simp add: dict_get_def assms Let_def two split: option.split prod.split)
qed

lemma search_by_mac_other:
  assumes "mac_cache k = Some e"
  shows "search_by_mac pf w k (r, a, l, JOther t, ma, ch, mac_cache, u) =
     (if mac e = [] then Inr (r, a, l, JOther t, ma, ch, mac_cache, u)
      else Inl (AttributeError ''split''))"
  unfolding search_by_mac_def
  by (simp add: dict_get_def assms Let_def)

lemma track_mac_reachable:
  "track_mac pf w k (True, a, l, addr, ma0, ch, c, u) =
     Inr (case resolve_address pf addr (mac_ping w) (mac_arp w) of
            None \<Rightarrow> (True, a, l, addr, None, ch, c, u)
          | Some m \<Rightarrow>
              if m = [] then (True, a, l, addr, Some m, ch, c, u)
              else
                (case c k of
                   None \<Rightarrow> (True, a, l, addr, Some m, ch,
                             c(k \<mapsto> \<lparr> mac = m, last_ip = addr, last_seen = cache_time w \<rparr>), True)
                 | Some e \<Rightarrow>
                     if mac e = m then (True, a, l, addr, Some m, ch, c, u)
                     else (True, a, l, addr, Some m, ch,
                           c(k \<mapsto> \<lparr> mac = m, last_ip = addr, last_seen = cache_time w \<rparr>),
                           True)))"
  by (simp add: track_mac_def Let_def cache_mac_None cache_mac_Some split: option.split)

lemma track_mac_unknown:
  "c k = None \<Longrightarrow>
   track_mac pf w k (False, a, l, addr, ma0, ch, c, u) = Inr (False, a, l, addr, ma0, ch, c, u)"
  by (simp add: track_mac_def)

lemma track_mac_known:
  "c k = Some e \<Longrightarrow>
   track_mac pf w k (False, a, l, addr, ma0, ch, c, u) =
     search_by_mac pf w k (False, a, l, addr, ma0, ch, c, u)"
  by (simp add: track_mac_def)

lemma first_result_SomeD:
  "first_result f xs = Some r \<Longrightarrow> \<exists>j\<in>set xs. f j = Some r"
proof (induction xs)
  case Nil
  then show ?case by simp
next
  case (Cons x xs)
  show ?case
  proof (cases "f x")
    case None
    with Cons show ?thesis by simp
  next
    case (Some r')
    show ?thesis
    proof (cases "r' = []")
      case True
      with Some Cons show ?thesis by simp
    next
      case False
      with Some Cons.prems have "r' = r" by simp
      with Some show ?thesis by simp
    qed
  qed
qed

lemma check_ip_SomeD:
  assumes "check_ip pf w mac_normalized network_prefix timeout_sec j = Some r"
  shows "\<exists>fm. get_mac_address pf (unit_ping w j) (unit_arp w j) = Some fm \<and>
              py_upper fm = mac_normalized"
proof (cases "get_mac_address pf (unit_ping w j) (unit_arp w j)")
  case None
  with assms show ?thesis by (simp add: check_ip_def Let_def split: if_splits)
next
  case (Some fm)
  with assms show ?thesis by (simp add: check_ip_def Let_def split: if_splits)
qed

lemma scan_SomeD:
  assumes "scan_network_for_mac pf w target network_prefix timeout_sec = Some b"
  shows "\<exists>j\<in>set (completed w). \<exists>fm.
      get_mac_address pf (unit_ping w j) (unit_arp w j) = Some fm \<and> is_canonical_mac fm \<and>
      py_upper fm = replace_hyphen (py_upper target)"
proof -
  from assms have "first_result
      (check_ip pf w (replace_hyphen (py_upper target)) network_prefix timeout_sec)
      (completed w) = Some b"
    by (simp add: scan_network_for_mac_def)
  from first_result_SomeD [OF this] obtain j where j: "j \<in> set (completed w)"
    and "check_ip pf w (replace_hyphen (py_upper target)) network_prefix timeout_sec j = Some b"
    by blast
  from check_ip_SomeD [OF this(2)] obtain fm
    where fm: "get_mac_address pf (unit_ping w j) (unit_arp w j) = Some fm"
      "py_upper fm = replace_hyphen (py_upper target)"
    by blast
  from fm(1) have "is_canonical_mac fm" by (rule get_mac_address_canonical)
  with j fm show ?thesis by blast
qed

lemma locals_cases:
  obtains r a l addr ma ch c u where "(loc :: 'f locals) = (r, a, l, addr, ma, ch, c, u)"
proof (cases loc)
  case (fields r a l addr ma ch cu)
  obtain c u where "cu = (c, u)" by (cases cu)
  with fields that show ?thesis by simp
qed

lemma track_mac_total:
  "\<exists>loc'. track_mac pf w k (r, a, l, JStr s, ma0, ch, c, u) = Inr loc'"
proof (cases r)
  case True
  then have r: "r = True" by simp
  show ?thesis unfolding r by (rule exI, rule track_mac_reachable)
next
  case False
  then have r: "r = False" by simp
  show ?thesis
  proof (cases "c k")
    case None
    show ?thesis unfolding r by (rule exI, rule track_mac_unknown [where c = c and k = k, OF None])
  next
    case (Some e)
    show ?thesis unfolding r track_mac_known [where c = c and k = k, OF Some]
      by (rule exI, rule search_by_mac_Some [where mac_cache = c and k = k, OF Some])
  qed
qed

lemma tracking_total:
  "\<exists>r1 a1 l1 ip1 ma ch c1 u1.
     (if en then track_mac pf w k (r, a, l, JStr s, None, False, mac_cache, updated)
      else Inr (r, a, l, JStr s, None, False, mac_cache, updated)) =
     Inr (r1, a1, l1, ip1, ma, ch, c1, u1)"
proof (cases en)
  case True
  from track_mac_total [of pf w k r a l s None False mac_cache updated]
  obtain loc' where t: "track_mac pf w k (r, a, l, JStr s, None, False, mac_cache, updated) = Inr loc'"
    by blast
  obtain r1 a1 l1 ip1 ma ch c1 u1 where "loc' = (r1, a1, l1, ip1, ma, ch, c1, u1)"
    by (rule locals_cases)
  with t True show ?thesis by simp
next
  case False
  then have "(if en then track_mac pf w k (r, a, l, JStr s, None, False, mac_cache, updated)
      else Inr (r, a, l, JStr s, None, False, mac_cache, updated)) =
     Inr (r, a, l, JStr s, None, False, mac_cache, updated)"
    by simp
  then show ?thesis by blast
qed

lemma eval_camera_report:
  assumes "ping_address pf (c_ip c) (first_ping w) 2 = (r, a, l, out)"
    and "is_suspicious pf (c_ip c) r a = Inr sb"
    and "(if en then track_mac pf w (cam_id_of c) (r, a, l, c_ip c, None, False, mac_cache, updated)
          else Inr (r, a, l, c_ip c, None, False, mac_cache, updated)) =
         Inr (r1, a1, l1, ip1, ma, ch, c1, u1)"
  shows "eval_camera pf en w c mac_cache updated =
      Inr (\<lparr> r_name = c_name c, r_ip = ip1,
             r_status = (if r1 then ''up'' else ''down''),
             r_latency_ms = a1, r_packet_loss = l1,
             r_suspicious = sb,
             r_mac_address = ma, r_ip_changed = ch,
             r_old_ip = (if ch then Some (c_ip c) else None) \<rparr>, c1, u1)"
  unfolding eval_camera_def Let_def assms(1)
  by (simp add: assms(2,3))

lemma eval_camera_InrD:
  assumes "eval_camera pf en w c mac_cache updated = Inr (rep, cache', updated')"
  obtains r a l out sb r1 a1 l1 ip1 ma ch
  where "ping_address pf (c_ip c) (first_ping w) 2 = (r, a, l, out)"
    and "is_suspicious pf (c_ip c) r a = Inr sb"
    and "(if en then track_mac pf w (cam_id_of c) (r, a, l, c_ip c, None, False, mac_cache, updated)
          else Inr (r, a, l, c_ip c, None, False, mac_cache, updated)) =
         Inr (r1, a1, l1, ip1, ma, ch, cache', updated')"
    and "rep = \<lparr> r_name = c_name c, r_ip = ip1,
             r_status = (if r1 then ''up'' else ''down''),
             r_latency_ms = a1, r_packet_loss = l1,
             r_suspicious = sb,
             r_mac_address = ma, r_ip_changed = ch,
             r_old_ip = (if ch then Some (c_ip c) else None) \<rparr>"
proof -
  obtain r a l out where p: "ping_address pf (c_ip c) (first_ping w) 2 = (r, a, l, out)"
    by (cases "ping_address pf (c_ip c) (first_ping w) 2")
  show ?thesis
  proof (cases "is_suspicious pf (c_ip c) r a")
    case (Inl err)
    with assms p show ?thesis by (simp add: eval_camera_def Let_def)
  next
    case (Inr sb)
    show ?thesis
    proof (cases "if en then track_mac pf w (cam_id_of c)
          (r, a, l, c_ip c, None, False, mac_cache, updated)
        else Inr (r, a, l, c_ip c, None, False, mac_cache, updated)")
      case Inl2: (Inl err)
      with assms p Inr show ?thesis by (simp add: eval_camera_def Let_def)
    next
      case Inr2: (Inr loc')
      obtain r1 a1 l1 ip1 ma ch c1 u1 where loc': "loc' = (r1, a1, l1, ip1, ma, ch, c1, u1)"
        by (rule locals_cases)
      note t = Inr2 [unfolded loc']
      from assms have "c1 = cache'" "u1 = updated'"
        and "rep = \<lparr> r_name = c_name c, r_ip = ip1,
             r_status = (if r1 then ''up'' else ''down''),
             r_latency_ms = a1, r_packet_loss = l1,
             r_suspicious = sb,
             r_mac_address = ma, r_ip_changed = ch,
             r_old_ip = (if ch then Some (c_ip c) else None) \<rparr>"
        unfolding eval_camera_report [OF p Inr t] by auto
      with p Inr t that show ?thesis by blast
    qed
  qed
qed

lemma track_mac_summary:
  assumes t: "track_mac pf w k (r, a, l, addr, None, False, c, u) =
      Inr (r', a', l', addr', ma', ch', c', u')"
  shows "(\<not> ch' \<longrightarrow> r' = r \<and> a' = a \<and> l' = l \<and> addr' = addr) \<and>
         (r \<longrightarrow> r' \<and> \<not> ch') \<and>
         (r' \<longrightarrow> r \<or> fst (ping_ip pf (second_ping w) 2)) \<and>
         (\<forall>k'. c k' \<noteq> None \<longrightarrow> c' k' \<noteq> None) \<and>
         (\<forall>k'. k' \<noteq> k \<longrightarrow> c' k' = c k') \<and>
         (\<not> r' \<longrightarrow> c' = c \<and> u' = u) \<and>
         (r \<and> resolve_address pf addr (mac_ping w) (mac_arp w) = None \<longrightarrow> c' = c \<and> u' = u) \<and>
         (c' \<noteq> c \<or> u' \<noteq> u \<longrightarrow>
            u' \<and> r' \<and>
            ((r \<and> (\<exists>m. resolve_address pf addr (mac_ping w) (mac_arp w) = Some m \<and>
                        is_canonical_mac m \<and>
                        c' = c(k \<mapsto> \<lparr> mac = m, last_ip = addr, last_seen = cache_time w \<rparr>))) \<or>
             (\<not> r \<and> fst (ping_ip pf (second_ping w) 2) \<and>
              (\<exists>e b s. addr = JStr s \<and> c k = Some e \<and>
                 scan_network_for_mac pf (scan w) (mac e)
                   (join_dot (take 3 (split_char CHR ''.'' s)) @ ''.'') 30 = Some b \<and>
                 b \<noteq> s \<and>
                 c' = c(k \<mapsto> e\<lparr>last_ip := JStr b, last_seen := reloc_time w\<rparr>) \<and>
                 (\<exists>j\<in>set (completed (scan w)). \<exists>fm.
                    get_mac_address pf (unit_ping (scan w) j) (unit_arp (scan w) j) = Some fm \<and>
                    is_canonical_mac fm \<and>
                    py_upper fm = replace_hyphen (py_upper (mac e)))))))"
    (is "?P r' a' l' addr' ch' c' u'")
proof -
  have same: "?P r a l addr False c u" by simp
  show ?thesis
  proof (cases r)
    case True
    then have r: "r = True" by simp
    note t1 = t [unfolded r track_mac_reachable sum.inject]
    show ?thesis
    proof (cases "resolve_address pf addr (mac_ping w) (mac_arp w)")
      case None
      with t1 have "r' = r \<and> a' = a \<and> l' = l \<and> addr' = addr \<and> ch' = False \<and> c' = c \<and> u' = u"
        by (simp add: r)
      with same show ?thesis by simp
    next
      case (Some m)
      from Some have canon: "is_canonical_mac m" by (rule resolve_address_canonical)
      then have m: "m \<noteq> []" by (auto simp: is_canonical_mac_def)
      show ?thesis
      proof (cases "c k")
        case None
        with t1 Some m have eq: "r' = True" "a' = a" "l' = l" "addr' = addr" "ch' = False"
          "c' = c(k \<mapsto> \<lparr> mac = m, last_ip = addr, last_seen = cache_time w \<rparr>)" "u' = True"
          by auto
        show ?thesis unfolding eq r using Some canon by simp
      next
        case Some2: (Some e)
        show ?thesis
        proof (cases "mac e = m")
          case True
          with t1 Some Some2 m
          have "r' = r \<and> a' = a \<and> l' = l \<and> addr' = addr \<and> ch' = False \<and> c' = c \<and> u' = u"
            by (simp add: r)
          with same show ?thesis by simp
        next
          case False
          with t1 Some Some2 m have eq: "r' = True" "a' = a" "l' = l" "addr' = addr" "ch' = False"
            "c' = c(k \<mapsto> \<lparr> mac = m, last_ip = addr, last_seen = cache_time w \<rparr>)" "u' = True"
            by auto
          show ?thesis unfolding eq r using Some Some2 canon by simp
        qed
      qed
    qed
  next
    case False
    then have r: "r = False" by simp
    show ?thesis
    proof (cases "c k")
      case None
      from t [unfolded r track_mac_unknown [where c = c and k = k, OF None] sum.inject]
      have "r' = r \<and> a' = a \<and> l' = l \<and> addr' = addr \<and> ch' = False \<and> c' = c \<and> u' = u"
        by (simp add: r)
      with same show ?thesis by simp
    next
      case (Some e)
      show ?thesis
      proof (cases addr)
        case (JOther x)
        from t [unfolded r JOther track_mac_known [where c = c and k = k, OF Some]
            search_by_mac_other [where mac_cache = c and k = k, OF Some]]
        have "r' = r \<and> a' = a \<and> l' = l \<and> addr' = addr \<and> ch' = False \<and> c' = c \<and> u' = u"
          by (simp add: r JOther split: if_splits)
        with same show ?thesis by simp
      next
        case (JStr s)
        note t1 = t [unfolded r JStr track_mac_known [where c = c and k = k, OF Some]
            search_by_mac_Some [where mac_cache = c and k = k, OF Some] sum.inject]
        let ?prefix = "join_dot (take 3 (split_char CHR ''.'' s)) @ ''.''"
        show ?thesis
        proof (cases "mac e = [] \<or> length (split_char CHR ''.'' s) \<noteq> 4")
          case True
          with t1 have "r' = r \<and> a' = a \<and> l' = l \<and> addr' = addr \<and> ch' = False \<and> c' = c \<and> u' = u"
            by (simp add: r JStr)
          with same show ?thesis by simp
        next
          case guard: False
          show ?thesis
          proof (cases "scan_network_for_mac pf (scan w) (mac e) ?prefix 30")
            case None
            with t1 guard
            have "r' = r \<and> a' = a \<and> l' = l \<and> addr' = addr \<and> ch' = False \<and> c' = c \<and> u' = u"
              by (simp add: r JStr)
            with same show ?thesis by simp
          next
            case Some2: (Some b)
            show ?thesis
            proof (cases "b = [] \<or> b = s")
              case True
              with t1 guard Some2
              have "r' = r \<and> a' = a \<and> l' = l \<and> addr' = addr \<and> ch' = False \<and> c' = c \<and> u' = u"
                by (auto simp: r JStr)
              with same show ?thesis by simp
            next
              case found: False
              obtain r2 a2 l2 o2 where p2: "ping_ip pf (second_ping w) 2 = (r2, a2, l2, o2)"
                by (cases "ping_ip pf (second_ping w) 2")
              show ?thesis
              proof (cases r2)
                case False
                with t1 guard Some2 found p2
                have eq: "r' = False" "ch' = True" "c' = c" "u' = u"
                  by auto
                show ?thesis unfolding eq r by simp
              next
                case True
                with t1 guard Some2 found p2
                have eq: "r' = True" "ch' = True" "u' = True"
                  "c' = c(k \<mapsto> e\<lparr>last_ip := JStr b, last_seen := reloc_time w\<rparr>)"
                  by auto
                from scan_SomeD [OF Some2]
                have unit: "\<exists>j\<in>set (completed (scan w)). \<exists>fm.
                    get_mac_address pf (unit_ping (scan w) j) (unit_arp (scan w) j) = Some fm \<and>
                    is_canonical_mac fm \<and>
                    py_upper fm = replace_hyphen (py_upper (mac e))" .
                have reloc: "\<exists>e' b' s'. addr = JStr s' \<and> c k = Some e' \<and>
                   scan_network_for_mac pf (scan w) (mac e')
                     (join_dot (take 3 (split_char CHR ''.'' s')) @ ''.'') 30 = Some b' \<and>
                   b' \<noteq> s' \<and>
                   c(k \<mapsto> e\<lparr>last_ip := JStr b, last_seen := reloc_time w\<rparr>) =
                     c(k \<mapsto> e'\<lparr>last_ip := JStr b', last_seen := reloc_time w\<rparr>) \<and>
                   (\<exists>j\<in>set (completed (scan w)). \<exists>fm.
                      get_mac_address pf (unit_ping (scan w) j) (unit_arp (scan w) j) = Some fm \<and>
                      is_canonical_mac fm \<and>
                      py_upper fm = replace_hyphen (py_upper (mac e')))"
                  using Some Some2 found unit JStr by blast
                show ?thesis unfolding eq r
                  using reloc True p2 by simp
              qed
            qed
          qed
        qed
      qed
    qed
  qed
qed

lemma tracking_summary:
  assumes t: "(if en then track_mac pf w k (r, a, l, addr, None, False, c, u)
               else Inr (r, a, l, addr, None, False, c, u)) =
      Inr (r', a', l', addr', ma', ch', c', u')"
  shows "(\<not> ch' \<longrightarrow> r' = r \<and> a' = a \<and> l' = l \<and> addr' = addr) \<and>
         (r \<longrightarrow> r' \<and> \<not> ch') \<and>
         (r' \<longrightarrow> r \<or> (en \<and> fst (ping_ip pf (second_ping w) 2)))"
proof (cases en)
  case True
  with t have "track_mac pf w k (r, a, l, addr, None, False, c, u) =
      Inr (r', a', l', addr', ma', ch', c', u')"
    by simp
  from track_mac_summary [OF this] True show ?thesis by blast
next
  case False
  with t show ?thesis by simp
qed

lemma eval_camera_total:
  assumes "c_ip c = JStr s"
  shows "\<exists>rep cache' updated'.
     eval_camera pf en w c mac_cache updated = Inr (rep, cache', updated')"
proof -
  obtain r a l out where p: "ping_address pf (c_ip c) (first_ping w) 2 = (r, a, l, out)"
    by (cases "ping_address pf (c_ip c) (first_ping w) 2")
  obtain sb where sb: "is_suspicious pf (c_ip c) r a = Inr sb"
    unfolding assms is_suspicious_str by blast
  from tracking_total [of en pf w "cam_id_of c" r a l s mac_cache updated]
  obtain r1 a1 l1 ip1 ma ch c1 u1 where t:
    "(if en then track_mac pf w (cam_id_of c) (r, a, l, c_ip c, None, False, mac_cache, updated)
      else Inr (r, a, l, c_ip c, None, False, mac_cache, updated)) =
     Inr (r1, a1, l1, ip1, ma, ch, c1, u1)"
    unfolding assms by blast
  show ?thesis
    unfolding eval_camera_report [OF p sb t] by blast
qed

lemma eval_camera_probes:
  assumes "eval_camera pf en w c mac_cache updated = Inr (rep, cache', updated')"
  shows "r_name rep = c_name c \<and>
         (fst (ping_address pf (c_ip c) (first_ping w) 2) \<longrightarrow>
            r_status rep = ''up'' \<and> r_ip rep = c_ip c \<and> \<not> r_ip_changed rep) \<and>
         (r_status rep = ''up'' \<longrightarrow>
            fst (ping_address pf (c_ip c) (first_ping w) 2) \<or>
            (en \<and> fst (ping_ip pf (second_ping w) 2))) \<and>
         (r_status rep \<noteq> ''up'' \<longrightarrow> r_status rep = ''down'')"
proof -
  from assms obtain r a l out sb r1 a1 l1 ip1 ma ch
    where p: "ping_address pf (c_ip c) (first_ping w) 2 = (r, a, l, out)"
      and t: "(if en then track_mac pf w (cam_id_of c)
                 (r, a, l, c_ip c, None, False, mac_cache, updated)
               else Inr (r, a, l, c_ip c, None, False, mac_cache, updated)) =
             Inr (r1, a1, l1, ip1, ma, ch, cache', updated')"
      and rep: "rep = \<lparr> r_name = c_name c, r_ip = ip1,
             r_status = (if r1 then ''up'' else ''down''),
             r_latency_ms = a1, r_packet_loss = l1,
             r_suspicious = sb,
             r_mac_address = ma, r_ip_changed = ch,
             r_old_ip = (if ch then Some (c_ip c) else None) \<rparr>"
    by (rule eval_camera_InrD)
  from tracking_summary [OF t] show ?thesis
    unfolding rep p by auto
qed

lemma run_cameras_reports:
  assumes "\<forall>c\<in>set cameras. \<exists>s. c_ip c = JStr s"
  shows "\<exists>reps caches.
     run_cameras pf en ws i cameras acc mac_cache updated =
       Inr (acc @ reps, last ((mac_cache, updated) # caches)) \<and>
     length reps = length cameras \<and> length caches = length cameras \<and>
     (\<forall>j<length cameras.
        eval_camera pf en (ws (i + j)) (cameras ! j)
          (fst (((mac_cache, updated) # caches) ! j))
          (snd (((mac_cache, updated) # caches) ! j)) = Inr (reps ! j, caches ! j))"
  using assms
proof (induction cameras arbitrary: i acc mac_cache updated)
  case Nil
  show ?case by simp
next
  case (Cons c cs)
  from Cons.prems obtain s where s: "c_ip c = JStr s" by auto
  from eval_camera_total [OF s, of pf en "ws i" mac_cache updated]
  obtain rep c1 u1 where e: "eval_camera pf en (ws i) c mac_cache updated = Inr (rep, c1, u1)"
    by blast
  from Cons.prems have "\<forall>c\<in>set cs. \<exists>s. c_ip c = JStr s" by simp
  from Cons.IH [OF this, of "Suc i" "acc @ [rep]" c1 u1]
  obtain reps caches where
    run: "run_cameras pf en ws (Suc i) cs (acc @ [rep]) c1 u1 =
       Inr ((acc @ [rep]) @ reps, last ((c1, u1) # caches))"
    and len: "length reps = length cs" "length caches = length cs"
    and turn: "\<forall>j<length cs.
        eval_camera pf en (ws (Suc i + j)) (cs ! j)
          (fst (((c1, u1) # caches) ! j))
          (snd (((c1, u1) # caches) ! j)) = Inr (reps ! j, caches ! j)"
    by blast
  have 1: "run_cameras pf en ws i (c # cs) acc mac_cache updated =
       Inr (acc @ (rep # reps), last ((mac_cache, updated) # (c1, u1) # caches))"
    by (simp add: e run)
  have 2: "length (rep # reps) = length (c # cs)" "length ((c1, u1) # caches) = length (c # cs)"
    by (simp_all add: len)
  have 3: "\<forall>j<length (c # cs).
        eval_camera pf en (ws (i + j)) ((c # cs) ! j)
          (fst (((mac_cache, updated) # (c1, u1) # caches) ! j))
          (snd (((mac_cache, updated) # (c1, u1) # caches) ! j)) =
        Inr ((rep # reps) ! j, ((c1, u1) # caches) ! j)"
  proof (intro allI impI)
    fix j assume j: "j < length (c # cs)"
    show "eval_camera pf en (ws (i + j)) ((c # cs) ! j)
          (fst (((mac_cache, updated) # (c1, u1) # caches) ! j))
          (snd (((mac_cache, updated) # (c1, u1) # caches) ! j)) =
        Inr ((rep # reps) ! j, ((c1, u1) # caches) ! j)"
    proof (cases j)
      case 0
      then show ?thesis by (simp add: e)
    next
      case (Suc j')
      with j have "j' < length cs" by simp
      with turn have "eval_camera pf en (ws (Suc i + j')) (cs ! j')
          (fst (((c1, u1) # caches) ! j'))
          (snd (((c1, u1) # caches) ! j')) = Inr (reps ! j', caches ! j')"
        by blast
      then show ?thesis unfolding Suc by simp
    qed
  qed
  from 1 2 3 show ?case by blast
qed

lemma track_mac_cached:
  assumes k: "c k = Some e"
  shows "\<exists>r1 a1 l1 ip1 ma ch.
     track_mac pf w k (r, a, l, JStr s, None, False, c, u) =
       Inr (r1, a1, l1, ip1, ma, ch,
         if r then
           (case get_mac_address pf (mac_ping w) (mac_arp w) of
              None \<Rightarrow> (c, u)
            | Some m \<Rightarrow>
                if mac e = m then (c, u)
                else (c(k \<mapsto> \<lparr> mac = m, last_ip = JStr s, last_seen = cache_time w \<rparr>), True))
         else
           (case (if mac e = [] \<or> length (split_char CHR ''.'' s) \<noteq> 4 then None
                  else scan_network_for_mac pf (scan w) (mac e)
                         (join_dot (take 3 (split_char CHR ''.'' s)) @ ''.'') 30) of
              None \<Rightarrow> (c, u)
            | Some b \<Rightarrow>
                if b \<noteq> [] \<and> b \<noteq> s \<and> fst (ping_ip pf (second_ping w) 2)
                then (c(k \<mapsto> e\<lparr>last_ip := JStr b, last_seen := reloc_time w\<rparr>), True)
                else (c, u)))"
proof (cases r)
  case True
  show ?thesis
  proof (cases "get_mac_address pf (mac_ping w) (mac_arp w)")
    case None
    show ?thesis by (auto simp: True track_mac_reachable resolve_address_str None)
  next
    case (Some m)
    then have "is_canonical_mac m" by (rule get_mac_address_canonical)
    then have m: "m \<noteq> []" by (auto simp: is_canonical_mac_def)
    show ?thesis by (auto simp: True track_mac_reachable resolve_address_str Some k m)
  qed
next
  case False
  then have r: "r = False" by simp
  let ?prefix = "join_dot (take 3 (split_char CHR ''.'' s)) @ ''.''"
  note known = track_mac_known [where c = c and k = k, OF k]
    search_by_mac_Some [where mac_cache = c and k = k, OF k]
  show ?thesis
  proof (cases "mac e = [] \<or> length (split_char CHR ''.'' s) \<noteq> 4")
    case True
    then show ?thesis unfolding r known by auto
  next
    case guard: False
    show ?thesis
    proof (cases "scan_network_for_mac pf (scan w) (mac e) ?prefix 30")
      case None
      with guard show ?thesis unfolding r known by auto
    next
      case (Some b)
      show ?thesis
      proof (cases "b = [] \<or> b = s")
        case True
        with guard Some show ?thesis unfolding r known by auto
      next
        case found: False
        obtain r2 a2 l2 o2 where p2: "ping_ip pf (second_ping w) 2 = (r2, a2, l2, o2)"
          by (cases "ping_ip pf (second_ping w) 2")
        from guard Some found show ?thesis unfolding r known by (auto simp: p2)
      qed
    qed
  qed
qed

lemma eval_camera_number:
  assumes ip: "c_ip c = JOther t" and k: "mac_cache (cam_id_of c) = Some e" and m: "mac e \<noteq> []"
  shows "eval_camera pf True w c mac_cache updated = Inl (AttributeError ''split'')"
proof -
  from ping_address_other [of pf t "first_ping w" 2]
  obtain out where p: "ping_address pf (c_ip c) (first_ping w) 2 = (False, None, None, out)"
    unfolding ip by blast
  have t: "track_mac pf w (cam_id_of c) (False, None, None, JOther t, None, False, mac_cache, updated) =
      Inl (AttributeError ''split'')"
    unfolding track_mac_known [where c = mac_cache and k = "cam_id_of c", OF k]
      search_by_mac_other [where mac_cache = mac_cache and k = "cam_id_of c", OF k]
    using m by simp
  show ?thesis
    unfolding eval_camera_def Let_def p
    by (simp add: ip is_suspicious_other t)
qed

lemma get_mac_address_any_ping:
  "get_mac_address pf ping_po arp_po = get_mac_address pf ping_po' arp_po"
  by (simp add: get_mac_address_def Let_def)

lemma ping_reply: "ping_ip win_platform (\<lambda>_. reply_po) 2 =
    (True, None, None, ''Reply from 10.0.0.9: bytes=32 time=4ms TTL=64'')"
  by code_simp

lemma ping_timed_out: "ping_ip win_platform (\<lambda>_. timed_out_po) 2 =
    (False, None, None, ''Request timed out.'')"
  by code_simp


lemma ping_not_started:
  "ping_ip win_platform
     (\<lambda>_. Raised ''[WinError 2] The system cannot find the file specified'') 2 =
    (False, None, None,
     ''ping error: [WinError 2] The system cannot find the file specified'')"
  by code_simp

lemma up_world_fields:
  "first_ping up_world = (\<lambda>_. reply_po)" "mac_ping up_world = reply_po"
  "mac_arp up_world = Completed 0 arp_line_9 []" "cache_time up_world = 2000"
  "scan up_world = ex_scan" "second_ping up_world = (\<lambda>_. timed_out_po)"
  "reloc_time up_world = 2010"
  by (simp_all add: up_world_def)

lemma dark_world_fields:
  "first_ping dark_world = (\<lambda>_. timed_out_po)" "scan dark_world = ex_scan"
  "second_ping dark_world = (\<lambda>_. timed_out_po)" "reloc_time dark_world = 2010"
  by (simp_all add: dark_world_def up_world_def)

lemma moved_world_fields:
  "first_ping moved_world = (\<lambda>_. timed_out_po)" "scan moved_world = ex_scan"
  "second_ping moved_world = (\<lambda>_. reply_po)" "reloc_time moved_world = 2010"
  by (simp_all add: moved_world_def dark_world_def up_world_def)



lemma broken_world_fields:
  "first_ping broken_world =
     (\<lambda>_. Raised ''[WinError 2] The system cannot find the file specified'')"
  "second_ping broken_world = (\<lambda>_. timed_out_po)"
  by (simp_all add: broken_world_def up_world_def)

lemma resolve_after_reply:
  "get_mac_address win_platform reply_po (Completed 0 arp_line_9 []) =
     Some ''AA:BB:CC:DD:EE:FF''"
  using resolve_arp_line_9
    get_mac_address_any_ping [of win_platform reply_po "Completed 0 arp_line_9 []"
      "Raised ''timed out''"]
  by simp

lemma cam_ids: "cam_id_of cam1 = ''cam1''" "cam_id_of cam1_moved = ''cam1''"
  "cam_id_of cam1_number = ''cam1''" "cam_id_of cam2 = ''cam2''"
  by (simp_all add: cam_id_of_def py_or_def cam1_def cam1_moved_def cam1_number_def cam2_def)

lemma cam_ips: "c_ip cam1 = JStr ''10.0.0.5''" "c_ip cam1_moved = JStr ''10.0.0.9''"
  "c_ip cam1_number = JOther ''167772165''" "c_ip cam2 = JStr ''10.0.0.9''"
  "c_name cam1 = Some ''cam1''" "c_name cam1_moved = Some ''cam1''"
  "c_name cam1_number = Some ''cam1''" "c_name cam2 = Some ''cam2''"
  by (simp_all add: cam1_def cam1_moved_def cam1_number_def cam2_def)

lemma cam1_cache_entry:
  "cam1_cache ''cam1'' =
     Some \<lparr> mac = ''AA:BB:CC:DD:EE:FF'', last_ip = JStr ''10.0.0.5'', last_seen = 900 \<rparr>"
  by (simp add: cam1_cache_def)

lemma ex_scan_finds_9:
  "scan_network_for_mac win_platform ex_scan ''AA:BB:CC:DD:EE:FF'' ''10.0.0.'' 30 =
     Some ''10.0.0.9''"
proof -
  have "scan_network_for_mac win_platform ex_scan ''AA:BB:CC:DD:EE:FF'' ''10.0.0.'' 30 =
     Some (''10.0.0.'' @ str_nat 9)"
  proof (rule scan_unique [where fm = "''AA:BB:CC:DD:EE:FF''"])
    show "9 \<in> set (completed ex_scan)" by (simp add: ex_scan_fields)
    show "unit_begin ex_scan 9 - start_time ex_scan \<le> of_int 30"
      by (simp add: ex_scan_fields)
    show "get_mac_address win_platform (unit_ping ex_scan 9) (unit_arp ex_scan 9) =
        Some ''AA:BB:CC:DD:EE:FF''"
      by (simp add: ex_scan_resolves)
    show "py_upper ''AA:BB:CC:DD:EE:FF'' = replace_hyphen (py_upper ''AA:BB:CC:DD:EE:FF'')"
      unfolding replace_hyphen_example by (rule upper_canonical_example)
    show "\<forall>j\<in>set (completed ex_scan). j \<noteq> 9 \<longrightarrow>
        \<not> (\<exists>fm. get_mac_address win_platform (unit_ping ex_scan j) (unit_arp ex_scan j) =
                Some fm \<and>
              py_upper fm = replace_hyphen (py_upper ''AA:BB:CC:DD:EE:FF''))"
      by (simp add: ex_scan_resolves)
  qed
  then show ?thesis by (simp add: str_nat_9)
qed

lemma prefix_of_cam1:
  "length (split_char CHR ''.'' ''10.0.0.5'') = 4"
  "join_dot (take 3 (split_char CHR ''.'' ''10.0.0.5'')) @ ''.'' = ''10.0.0.''"
  by code_simp+

lemma starts_with_10: "startswith ''10.0.0.9'' ''10.''"
  by code_simp


lemma search_cam1:
  assumes "scan w = ex_scan"
  shows "search_by_mac win_platform w ''cam1''
        (False, None, None, JStr ''10.0.0.5'', None, False, cam1_cache, False) =
      Inr (case ping_ip win_platform (second_ping w) 2 of
             (r2, a2, l2, o2) \<Rightarrow>
               if r2
               then (r2, a2, l2, JStr ''10.0.0.9'', None, True,
                     cam1_cache(''cam1'' \<mapsto>
                       \<lparr> mac = ''AA:BB:CC:DD:EE:FF'', last_ip = JStr ''10.0.0.9'',
                          last_seen = reloc_time w \<rparr>),
                     True)
               else (r2, a2, l2, JStr ''10.0.0.5'', None, True, cam1_cache, False))"
  unfolding search_by_mac_Some [where mac_cache = cam1_cache and k = "''cam1''",
      OF cam1_cache_entry]
  by (simp add: prefix_of_cam1 assms ex_scan_finds_9 split: prod.split)

lemma eval_cam1_dark:
  assumes "first_ping w = (\<lambda>_. timed_out_po)" and "scan w = ex_scan"
    and "ping_ip win_platform (second_ping w) 2 = (r2, a2, l2, o2)"
  shows "eval_camera win_platform True w cam1 cam1_cache False =
     Inr (\<lparr> r_name = Some ''cam1'',
            r_ip = (if r2 then JStr ''10.0.0.9'' else JStr ''10.0.0.5''),
            r_status = (if r2 then ''up'' else ''down''),
            r_latency_ms = a2, r_packet_loss = l2, r_suspicious = False,
            r_mac_address = None, r_ip_changed = True,
            r_old_ip = Some (JStr ''10.0.0.5'') \<rparr>,
          (if r2 then cam1_cache(''cam1'' \<mapsto>
                       \<lparr> mac = ''AA:BB:CC:DD:EE:FF'', last_ip = JStr ''10.0.0.9'',
                          last_seen = reloc_time w \<rparr>)
           else cam1_cache),
          r2)"
proof -
  have p: "ping_address win_platform (c_ip cam1) (first_ping w) 2 =
      (False, None, None, ''Request timed out.'')"
    by (simp add: cam_ips ping_address_str assms(1) ping_timed_out)
  have sb: "is_suspicious win_platform (c_ip cam1) False None = Inr False"
    by (simp add: cam_ips is_suspicious_str)
  have t: "(if True then track_mac win_platform w (cam_id_of cam1)
        (False, None, None, c_ip cam1, None, False, cam1_cache, False)
      else Inr (False, None, None, c_ip cam1, None, False, cam1_cache, False)) =
     Inr (r2, a2, l2, (if r2 then JStr ''10.0.0.9'' else JStr ''10.0.0.5''), None, True,
          (if r2 then cam1_cache(''cam1'' \<mapsto>
                       \<lparr> mac = ''AA:BB:CC:DD:EE:FF'', last_ip = JStr ''10.0.0.9'',
                          last_seen = reloc_time w \<rparr>)
           else cam1_cache), r2)"
    using track_mac_known [where c = cam1_cache and k = "''cam1''", OF cam1_cache_entry,
        of win_platform w None None "JStr ''10.0.0.5''" None False False]
    by (simp add: cam_ids cam_ips search_cam1 [OF assms(2)] assms(3))
  show ?thesis
    unfolding eval_camera_report [OF p sb t] by (simp add: cam_ips)
qed

lemma eval_cam1_moved_up:
  assumes "ping_ip win_platform (first_ping w) 2 = (True, a, l, out)"
    and "mac_ping w = reply_po" and "mac_arp w = Completed 0 arp_line_9 []"
  shows "eval_camera win_platform True w cam1_moved cam1_cache False =
     Inr (\<lparr> r_name = Some ''cam1'', r_ip = JStr ''10.0.0.9'', r_status = ''up'',
            r_latency_ms = a, r_packet_loss = l,
            r_suspicious = (case a of None \<Rightarrow> False | Some x \<Rightarrow> gt_500 win_platform x),
            r_mac_address = Some ''AA:BB:CC:DD:EE:FF'', r_ip_changed = False,
            r_old_ip = None \<rparr>,
          cam1_cache, False)"
proof -
  have p: "ping_address win_platform (c_ip cam1_moved) (first_ping w) 2 = (True, a, l, out)"
    by (simp add: cam_ips ping_address_str assms(1))
  have sb: "is_suspicious win_platform (c_ip cam1_moved) True a =
      Inr (case a of None \<Rightarrow> False | Some x \<Rightarrow> gt_500 win_platform x)"
    by (simp add: cam_ips is_suspicious_str starts_with_10)
  have t: "(if True then track_mac win_platform w (cam_id_of cam1_moved)
        (True, a, l, c_ip cam1_moved, None, False, cam1_cache, False)
      else Inr (True, a, l, c_ip cam1_moved, None, False, cam1_cache, False)) =
     Inr (True, a, l, JStr ''10.0.0.9'', Some ''AA:BB:CC:DD:EE:FF'', False, cam1_cache, False)"
    by (simp add: track_mac_reachable resolve_address_str assms(2,3) resolve_after_reply
        cam_ids cam_ips cam1_cache_entry)
  show ?thesis
    unfolding eval_camera_report [OF p sb t] by (simp add: cam_ips)
qed


text \<open>
  C8 (as amended). For every roster whose addresses are strings, whatever the external
  commands do (answer, fail, time out or not start at all), the loop returns with
  exactly one report for each camera, in the order of the roster. The report of the
  camera of index \<open>i\<close> is the one that the loop body gives for that camera, started in
  the cache that the cameras before it have left. It carries the camera's name; it
  says up with the configured address when the ping of that address succeeded; it says
  up only when that ping or, with MAC tracking, the ping of a rediscovered address
  succeeded; otherwise it says down. The state file receives the last cache exactly
  when some turn has marked it as updated.
\<close>

theorem one_report_per_camera:
  assumes "\<forall>c\<in>set cameras. \<exists>s. c_ip c = JStr s"
  shows "\<exists>cam_reports caches.
     length cam_reports = length cameras \<and> length caches = Suc (length cameras) \<and>
     caches ! 0 = ((case stored of None \<Rightarrow> Map.empty | Some m \<Rightarrow> m), False) \<and>
     (\<forall>i<length cameras.
        eval_camera pf en (ws i) (cameras ! i) (fst (caches ! i)) (snd (caches ! i)) =
          Inr (cam_reports ! i, caches ! Suc i) \<and>
        r_name (cam_reports ! i) = c_name (cameras ! i) \<and>
        (fst (ping_ip pf (first_ping (ws i)) 2) \<longrightarrow>
           r_status (cam_reports ! i) = ''up'' \<and> r_ip (cam_reports ! i) = c_ip (cameras ! i)) \<and>
        (r_status (cam_reports ! i) = ''up'' \<longrightarrow>
           fst (ping_ip pf (first_ping (ws i)) 2) \<or>
           (en \<and> fst (ping_ip pf (second_ping (ws i)) 2))) \<and>
        (r_status (cam_reports ! i) \<noteq> ''up'' \<longrightarrow> r_status (cam_reports ! i) = ''down'')) \<and>
     run_once_cameras pf en ws cameras stored =
       Inr (cam_reports, if snd (last caches) then Some (fst (last caches)) else stored)"
proof -
  let ?init = "case stored of None \<Rightarrow> Map.empty | Some m \<Rightarrow> m"
  from run_cameras_reports [OF assms, of pf en ws 0 "[]" ?init False]
  obtain reps caches where
    run: "run_cameras pf en ws 0 cameras [] ?init False =
       Inr (reps, last ((?init, False) # caches))"
    and len: "length reps = length cameras" "length caches = length cameras"
    and turn: "\<forall>j<length cameras.
        eval_camera pf en (ws j) (cameras ! j)
          (fst (((?init, False) # caches) ! j))
          (snd (((?init, False) # caches) ! j)) = Inr (reps ! j, caches ! j)"
    by auto
  let ?caches = "(?init, False) # caches"
  have each: "\<forall>i<length cameras.
        eval_camera pf en (ws i) (cameras ! i) (fst (?caches ! i)) (snd (?caches ! i)) =
          Inr (reps ! i, ?caches ! Suc i) \<and>
        r_name (reps ! i) = c_name (cameras ! i) \<and>
        (fst (ping_ip pf (first_ping (ws i)) 2) \<longrightarrow>
           r_status (reps ! i) = ''up'' \<and> r_ip (reps ! i) = c_ip (cameras ! i)) \<and>
        (r_status (reps ! i) = ''up'' \<longrightarrow>
           fst (ping_ip pf (first_ping (ws i)) 2) \<or>
           (en \<and> fst (ping_ip pf (second_ping (ws i)) 2))) \<and>
        (r_status (reps ! i) \<noteq> ''up'' \<longrightarrow> r_status (reps ! i) = ''down'')"
  proof (intro allI impI)
    fix i assume i: "i < length cameras"
    with turn have e: "eval_camera pf en (ws i) (cameras ! i)
          (fst (?caches ! i)) (snd (?caches ! i)) = Inr (reps ! i, caches ! i)"
      by blast
    then have e': "eval_camera pf en (ws i) (cameras ! i)
          (fst (?caches ! i)) (snd (?caches ! i)) =
        Inr (reps ! i, fst (caches ! i), snd (caches ! i))"
      by simp
    from i assms obtain s where s: "c_ip (cameras ! i) = JStr s"
      by (metis nth_mem)
    from eval_camera_probes [OF e']
    show "eval_camera pf en (ws i) (cameras ! i) (fst (?caches ! i)) (snd (?caches ! i)) =
          Inr (reps ! i, ?caches ! Suc i) \<and>
        r_name (reps ! i) = c_name (cameras ! i) \<and>
        (fst (ping_ip pf (first_ping (ws i)) 2) \<longrightarrow>
           r_status (reps ! i) = ''up'' \<and> r_ip (reps ! i) = c_ip (cameras ! i)) \<and>
        (r_status (reps ! i) = ''up'' \<longrightarrow>
           fst (ping_ip pf (first_ping (ws i)) 2) \<or>
           (en \<and> fst (ping_ip pf (second_ping (ws i)) 2))) \<and>
        (r_status (reps ! i) \<noteq> ''up'' \<longrightarrow> r_status (reps ! i) = ''down'')"
      unfolding s ping_address_str using e by simp
  qed
  have once: "run_once_cameras pf en ws cameras stored =
       Inr (reps, if snd (last ?caches) then Some (fst (last ?caches)) else stored)"
    unfolding run_once_cameras_def run by (simp add: case_prod_beta)
  have "length reps = length cameras \<and> length ?caches = Suc (length cameras) \<and>
      ?caches ! 0 = (?init, False)"
    by (simp add: len)
  with each once show ?thesis by blast
qed

theorem one_report_per_camera_witness:
  "\<exists>cam_reports saved.
     run_once_cameras win_platform True broken_then_up [cam1, cam2] None =
       Inr (cam_reports, saved) \<and>
     length cam_reports = 2 \<and>
     r_name (cam_reports ! 0) = Some ''cam1'' \<and> r_status (cam_reports ! 0) = ''down'' \<and>
     r_name (cam_reports ! 1) = Some ''cam2'' \<and> r_status (cam_reports ! 1) = ''up''"
proof -
  have strings: "\<forall>c\<in>set [cam1, cam2]. \<exists>s. c_ip c = JStr s"
    by (simp add: cam_ips)
  from one_report_per_camera [OF strings, of None win_platform True broken_then_up]
  obtain cam_reports :: "nat report list" and caches where
    len: "length cam_reports = length [cam1, cam2]"
    and each: "\<forall>i<length [cam1, cam2].
        r_name (cam_reports ! i) = c_name ([cam1, cam2] ! i) \<and>
        (fst (ping_ip win_platform (first_ping (broken_then_up i)) 2) \<longrightarrow>
           r_status (cam_reports ! i) = ''up'') \<and>
        (r_status (cam_reports ! i) = ''up'' \<longrightarrow>
           fst (ping_ip win_platform (first_ping (broken_then_up i)) 2) \<or>
           (True \<and> fst (ping_ip win_platform (second_ping (broken_then_up i)) 2))) \<and>
        (r_status (cam_reports ! i) \<noteq> ''up'' \<longrightarrow> r_status (cam_reports ! i) = ''down'')"
    and once: "run_once_cameras win_platform True broken_then_up [cam1, cam2] None =
       Inr (cam_reports, if snd (last caches) then Some (fst (last caches)) else None)"
    by blast
  have first: "\<not> fst (ping_ip win_platform (first_ping (broken_then_up 0)) 2)"
    "\<not> fst (ping_ip win_platform (second_ping (broken_then_up 0)) 2)"
    by (simp_all add: broken_then_up_def broken_world_fields ping_not_started ping_timed_out)
  have second: "fst (ping_ip win_platform (first_ping (broken_then_up 1)) 2)"
    by (simp add: broken_then_up_def up_world_fields ping_reply)
  from each have 0: "r_name (cam_reports ! 0) = c_name ([cam1, cam2] ! 0) \<and>
        (r_status (cam_reports ! 0) = ''up'' \<longrightarrow>
           fst (ping_ip win_platform (first_ping (broken_then_up 0)) 2) \<or>
           fst (ping_ip win_platform (second_ping (broken_then_up 0)) 2)) \<and>
        (r_status (cam_reports ! 0) \<noteq> ''up'' \<longrightarrow> r_status (cam_reports ! 0) = ''down'')"
    by simp
  from each have 1: "r_name (cam_reports ! 1) = c_name ([cam1, cam2] ! 1) \<and>
        (fst (ping_ip win_platform (first_ping (broken_then_up 1)) 2) \<longrightarrow>
           r_status (cam_reports ! 1) = ''up'')"
    by simp
  from 0 first have "r_name (cam_reports ! 0) = Some ''cam1'' \<and>
      r_status (cam_reports ! 0) = ''down''"
    by (auto simp: cam_ips)
  moreover from 1 second have "r_name (cam_reports ! 1) = Some ''cam2'' \<and>
      r_status (cam_reports ! 1) = ''up''"
    by (simp add: cam_ips)
  moreover from len have "length cam_reports = 2" by simp
  ultimately show ?thesis using once by blast
qed

text \<open>
  C8 as stated fails. The loop body has no handler of its own: the errors of the
  external commands become values inside \<open>ping_ip\<close>, \<open>get_mac_address\<close> and
  \<open>scan_network_for_mac\<close>, but an exception of the body's own statements leaves the
  loop. The roster keeps every dictionary whose \<open>ip\<close> is true, so JSON may give the
  address as a number. For such a camera with a cached MAC the ping fails, and line 899
  calls \<open>split\<close> on the number: no report is built for this camera, and the camera
  after it is never evaluated.
\<close>

theorem number_address_leaves_loop_counterexample:
  "run_once_cameras win_platform True all_dark [cam1_number, cam2]
     (Some cam1_cache) = Inl (AttributeError ''split'') \<and>
   length [cam1_number, cam2] = 2"
proof -
  have "mac \<lparr> mac = ''AA:BB:CC:DD:EE:FF'', last_ip = JStr ''10.0.0.5'',
               last_seen = 900 \<rparr> \<noteq> []"
    by simp
  from eval_camera_number [where c = cam1_number and mac_cache = cam1_cache,
      OF cam_ips(3) cam1_cache_entry [folded cam_ids(3)] this,
      of win_platform "all_dark 0" False]
  show ?thesis by (simp add: run_once_cameras_def)
qed


text \<open>
  C7. One turn of the loop never removes an entry of the cache and touches no entry
  but the camera's own. It leaves the cache as it was when the camera ends the turn as
  down (the ping failed and, if a scan ran, the scan or the ping of the address found
  failed) and when the camera is up but its MAC could not be resolved. When it does
  change the cache, then either the ping of the camera's address succeeded and a MAC in
  canonical form was resolved there, which is the entry written, or the camera was
  found by its cached MAC at another address, a unit of the scan resolved a MAC in
  canonical form there, and the ping of that address succeeded, and only \<open>last_ip\<close> and
  \<open>last_seen\<close> of the entry are set.
\<close>

theorem cache_written_only_on_sighting:
  assumes "eval_camera pf en w c mac_cache updated = Inr (rep, cache', updated')"
  shows "(\<forall>k. mac_cache k \<noteq> None \<longrightarrow> cache' k \<noteq> None) \<and>
         (\<forall>k. k \<noteq> cam_id_of c \<longrightarrow> cache' k = mac_cache k) \<and>
         (r_status rep = ''down'' \<longrightarrow> cache' = mac_cache \<and> updated' = updated) \<and>
         (fst (ping_address pf (c_ip c) (first_ping w) 2) \<and>
          resolve_address pf (c_ip c) (mac_ping w) (mac_arp w) = None \<longrightarrow>
            cache' = mac_cache \<and> updated' = updated) \<and>
         (cache' \<noteq> mac_cache \<or> updated' \<noteq> updated \<longrightarrow>
            en \<and> updated' \<and> r_status rep = ''up'' \<and>
            ((fst (ping_address pf (c_ip c) (first_ping w) 2) \<and>
              (\<exists>m. resolve_address pf (c_ip c) (mac_ping w) (mac_arp w) = Some m \<and>
                   is_canonical_mac m \<and>
                   cache' = mac_cache(cam_id_of c \<mapsto>
                              \<lparr> mac = m, last_ip = c_ip c, last_seen = cache_time w \<rparr>))) \<or>
             (\<not> fst (ping_address pf (c_ip c) (first_ping w) 2) \<and>
              fst (ping_ip pf (second_ping w) 2) \<and>
              (\<exists>e b s. c_ip c = JStr s \<and> mac_cache (cam_id_of c) = Some e \<and>
                 scan_network_for_mac pf (scan w) (mac e)
                   (join_dot (take 3 (split_char CHR ''.'' s)) @ ''.'') 30 = Some b \<and>
                 b \<noteq> s \<and>
                 cache' = mac_cache(cam_id_of c \<mapsto>
                            e\<lparr>last_ip := JStr b, last_seen := reloc_time w\<rparr>) \<and>
                 (\<exists>j\<in>set (completed (scan w)). \<exists>fm.
                    get_mac_address pf (unit_ping (scan w) j) (unit_arp (scan w) j) = Some fm \<and>
                    is_canonical_mac fm \<and>
                    py_upper fm = replace_hyphen (py_upper (mac e)))))))"
proof -
  from assms obtain r a l out sb r1 a1 l1 ip1 ma ch
    where p: "ping_address pf (c_ip c) (first_ping w) 2 = (r, a, l, out)"
      and t: "(if en then track_mac pf w (cam_id_of c)
                 (r, a, l, c_ip c, None, False, mac_cache, updated)
               else Inr (r, a, l, c_ip c, None, False, mac_cache, updated)) =
             Inr (r1, a1, l1, ip1, ma, ch, cache', updated')"
      and rep: "rep = \<lparr> r_name = c_name c, r_ip = ip1,
             r_status = (if r1 then ''up'' else ''down''),
             r_latency_ms = a1, r_packet_loss = l1,
             r_suspicious = sb,
             r_mac_address = ma, r_ip_changed = ch,
             r_old_ip = (if ch then Some (c_ip c) else None) \<rparr>"
    by (rule eval_camera_InrD)
  have down: "r_status rep = ''down'' \<longleftrightarrow> \<not> r1" and up: "r_status rep = ''up'' \<longleftrightarrow> r1"
    unfolding rep by simp_all
  show ?thesis
  proof (cases en)
    case True
    with t have "track_mac pf w (cam_id_of c) (r, a, l, c_ip c, None, False, mac_cache, updated) =
        Inr (r1, a1, l1, ip1, ma, ch, cache', updated')"
      by simp
    from track_mac_summary [OF this] True show ?thesis
      unfolding down up p fst_conv by blast
  next
    case False
    with t have "cache' = mac_cache" "updated' = updated" by simp_all
    then show ?thesis by simp
  qed
qed

lemma first_sighting:
  "eval_camera win_platform True up_world cam1_moved Map.empty False =
     Inr (\<lparr> r_name = Some ''cam1'', r_ip = JStr ''10.0.0.9'', r_status = ''up'',
            r_latency_ms = None, r_packet_loss = None, r_suspicious = False,
            r_mac_address = Some ''AA:BB:CC:DD:EE:FF'', r_ip_changed = False,
            r_old_ip = None \<rparr>,
          [''cam1'' \<mapsto> \<lparr> mac = ''AA:BB:CC:DD:EE:FF'', last_ip = JStr ''10.0.0.9'',
                        last_seen = 2000 \<rparr>],
          True)"
proof -
  have p: "ping_address win_platform (c_ip cam1_moved) (first_ping up_world) 2 =
      (True, None, None, ''Reply from 10.0.0.9: bytes=32 time=4ms TTL=64'')"
    by (simp add: cam_ips ping_address_str up_world_fields ping_reply)
  have sb: "is_suspicious win_platform (c_ip cam1_moved) True None = Inr False"
    by (simp add: cam_ips is_suspicious_str)
  have t: "(if True then track_mac win_platform up_world (cam_id_of cam1_moved)
        (True, None, None, c_ip cam1_moved, None, False, Map.empty, False)
      else Inr (True, None, None, c_ip cam1_moved, None, False, Map.empty, False)) =
     Inr (True, None, None, JStr ''10.0.0.9'', Some ''AA:BB:CC:DD:EE:FF'', False,
          [''cam1'' \<mapsto> \<lparr> mac = ''AA:BB:CC:DD:EE:FF'', last_ip = JStr ''10.0.0.9'',
                        last_seen = 2000 \<rparr>], True)"
    by (simp add: track_mac_reachable resolve_address_str resolve_after_reply cam_ids cam_ips
        up_world_fields)
  show ?thesis
    unfolding eval_camera_report [OF p sb t] by (simp add: cam_ips)
qed

theorem cache_written_only_on_sighting_witness:
  "fst (ping_address win_platform (c_ip cam1_moved) (first_ping up_world) 2) \<and>
   is_canonical_mac ''AA:BB:CC:DD:EE:FF''"
proof -
  let ?new = "[''cam1'' \<mapsto> \<lparr> mac = ''AA:BB:CC:DD:EE:FF'', last_ip = JStr ''10.0.0.9'',
                        last_seen = (2000 :: rat) \<rparr>]"
  have changed: "?new \<noteq> Map.empty \<or> True \<noteq> False" by simp
  have fp: "fst (ping_address win_platform (c_ip cam1_moved) (first_ping up_world) 2)"
    by (simp add: cam_ips ping_address_str up_world_fields ping_reply)
  have res: "resolve_address win_platform (c_ip cam1_moved) (mac_ping up_world)
      (mac_arp up_world) = Some ''AA:BB:CC:DD:EE:FF''"
    by (simp add: cam_ips resolve_address_str up_world_fields resolve_after_reply)
  from cache_written_only_on_sighting [OF first_sighting] changed
  have "(fst (ping_address win_platform (c_ip cam1_moved) (first_ping up_world) 2) \<and>
        (\<exists>m. resolve_address win_platform (c_ip cam1_moved) (mac_ping up_world)
               (mac_arp up_world) = Some m \<and>
             is_canonical_mac m)) \<or>
       \<not> fst (ping_address win_platform (c_ip cam1_moved) (first_ping up_world) 2)"
    by blast
  with fp have "\<exists>m. resolve_address win_platform (c_ip cam1_moved) (mac_ping up_world)
               (mac_arp up_world) = Some m \<and>
             is_canonical_mac m"
    by blast
  then have "is_canonical_mac ''AA:BB:CC:DD:EE:FF''"
    unfolding res by simp
  with fp show ?thesis by simp
qed


text \<open>
  C3 (as amended). Take a camera that is already in the cache, with a string as its
  address and MAC tracking on. Recording a sighting at the configured address (lines
  883-889) with the cached MAC leaves the entry as it is: neither \<open>last_ip\<close> nor
  \<open>last_seen\<close> is refreshed, and the cache is not marked as updated; with another MAC
  it replaces the entry by the new MAC, the address and the time of the sighting. The
  whole turn of the loop leaves the cache as follows. If the ping of the configured
  address succeeds, the cache is unchanged when no MAC is resolved or the cached one is
  resolved, and the entry is replaced when another MAC is resolved. If that ping fails,
  \<open>last_ip\<close> and \<open>last_seen\<close> are refreshed, the MAC being kept, exactly when the
  camera is relocated (lines 913-917): the cached MAC is not empty, the address has
  four parts, the scan finds the MAC at another address and the ping of that address
  succeeds; otherwise the cache is unchanged.
\<close>

theorem record_refreshes_only_on_relocation:
  assumes "mac_cache (cam_id_of c) = Some e" and "c_ip c = JStr s"
  shows "cache_mac mac_cache updated (cam_id_of c) m addr now =
           Inr (if mac e = m then (mac_cache, updated)
                else (mac_cache(cam_id_of c \<mapsto> \<lparr> mac = m, last_ip = addr, last_seen = now \<rparr>),
                      True)) \<and>
         (\<exists>rep. eval_camera pf True w c mac_cache updated =
            Inr (rep,
              if fst (ping_ip pf (first_ping w) 2) then
                (case get_mac_address pf (mac_ping w) (mac_arp w) of
                   None \<Rightarrow> (mac_cache, updated)
                 | Some m' \<Rightarrow>
                     if mac e = m' then (mac_cache, updated)
                     else (mac_cache(cam_id_of c \<mapsto>
                             \<lparr> mac = m', last_ip = JStr s, last_seen = cache_time w \<rparr>),
                           True))
              else
                (case (if mac e = [] \<or> length (split_char CHR ''.'' s) \<noteq> 4 then None
                       else scan_network_for_mac pf (scan w) (mac e)
                              (join_dot (take 3 (split_char CHR ''.'' s)) @ ''.'') 30) of
                   None \<Rightarrow> (mac_cache, updated)
                 | Some b \<Rightarrow>
                     if b \<noteq> [] \<and> b \<noteq> s \<and> fst (ping_ip pf (second_ping w) 2)
                     then (mac_cache(cam_id_of c \<mapsto>
                             e\<lparr>last_ip := JStr b, last_seen := reloc_time w\<rparr>),
                           True)
                     else (mac_cache, updated))))"
proof
  show "cache_mac mac_cache updated (cam_id_of c) m addr now =
           Inr (if mac e = m then (mac_cache, updated)
                else (mac_cache(cam_id_of c \<mapsto> \<lparr> mac = m, last_ip = addr, last_seen = now \<rparr>),
                      True))"
    by (rule cache_mac_Some [where mac_cache = mac_cache and k = "cam_id_of c", OF assms(1)])
next
  obtain r a l out where p0: "ping_ip pf (first_ping w) 2 = (r, a, l, out)"
    by (cases "ping_ip pf (first_ping w) 2")
  then have p: "ping_address pf (c_ip c) (first_ping w) 2 = (r, a, l, out)"
    by (simp add: assms(2) ping_address_str)
  obtain sb where sb: "is_suspicious pf (c_ip c) r a = Inr sb"
    unfolding assms(2) is_suspicious_str by blast
  let ?after = "if r then
                (case get_mac_address pf (mac_ping w) (mac_arp w) of
                   None \<Rightarrow> (mac_cache, updated)
                 | Some m' \<Rightarrow>
                     if mac e = m' then (mac_cache, updated)
                     else (mac_cache(cam_id_of c \<mapsto>
                             \<lparr> mac = m', last_ip = JStr s, last_seen = cache_time w \<rparr>),
                           True))
              else
                (case (if mac e = [] \<or> length (split_char CHR ''.'' s) \<noteq> 4 then None
                       else scan_network_for_mac pf (scan w) (mac e)
                              (join_dot (take 3 (split_char CHR ''.'' s)) @ ''.'') 30) of
                   None \<Rightarrow> (mac_cache, updated)
                 | Some b \<Rightarrow>
                     if b \<noteq> [] \<and> b \<noteq> s \<and> fst (ping_ip pf (second_ping w) 2)
                     then (mac_cache(cam_id_of c \<mapsto>
                             e\<lparr>last_ip := JStr b, last_seen := reloc_time w\<rparr>),
                           True)
                     else (mac_cache, updated))"
  from track_mac_cached [where c = mac_cache and k = "cam_id_of c", OF assms(1),
      of pf w r a l s updated]
  obtain r1 a1 l1 ip1 ma ch where
    "track_mac pf w (cam_id_of c) (r, a, l, JStr s, None, False, mac_cache, updated) =
       Inr (r1, a1, l1, ip1, ma, ch, ?after)"
    by blast
  then have t: "(if True then track_mac pf w (cam_id_of c)
                 (r, a, l, c_ip c, None, False, mac_cache, updated)
               else Inr (r, a, l, c_ip c, None, False, mac_cache, updated)) =
             Inr (r1, a1, l1, ip1, ma, ch, fst ?after, snd ?after)"
    by (simp add: assms(2))
  show "\<exists>rep. eval_camera pf True w c mac_cache updated =
            Inr (rep,
              if fst (ping_ip pf (first_ping w) 2) then
                (case get_mac_address pf (mac_ping w) (mac_arp w) of
                   None \<Rightarrow> (mac_cache, updated)
                 | Some m' \<Rightarrow>
                     if mac e = m' then (mac_cache, updated)
                     else (mac_cache(cam_id_of c \<mapsto>
                             \<lparr> mac = m', last_ip = JStr s, last_seen = cache_time w \<rparr>),
                           True))
              else
                (case (if mac e = [] \<or> length (split_char CHR ''.'' s) \<noteq> 4 then None
                       else scan_network_for_mac pf (scan w) (mac e)
                              (join_dot (take 3 (split_char CHR ''.'' s)) @ ''.'') 30) of
                   None \<Rightarrow> (mac_cache, updated)
                 | Some b \<Rightarrow>
                     if b \<noteq> [] \<and> b \<noteq> s \<and> fst (ping_ip pf (second_ping w) 2)
                     then (mac_cache(cam_id_of c \<mapsto>
                             e\<lparr>last_ip := JStr b, last_seen := reloc_time w\<rparr>),
                           True)
                     else (mac_cache, updated)))"
    unfolding eval_camera_report [OF p sb t] p0 fst_conv
    by (rule exI, simp only: prod.collapse)
qed

theorem record_refreshes_only_on_relocation_witness:
  "cache_mac cam1_cache False ''cam1'' ''AA:BB:CC:DD:EE:FF'' (JStr ''10.0.0.9'') 2000 =
     Inr (cam1_cache, False) \<and>
   cache_mac cam1_cache False ''cam1'' ''AA:BB:CC:DD:EE:00'' (JStr ''10.0.0.9'') 2000 =
     Inr (cam1_cache(''cam1'' \<mapsto>
            \<lparr> mac = ''AA:BB:CC:DD:EE:00'', last_ip = JStr ''10.0.0.9'', last_seen = 2000 \<rparr>),
          True) \<and>
   (\<exists>rep. eval_camera win_platform True moved_world cam1 cam1_cache False =
      Inr (rep,
           cam1_cache(''cam1'' \<mapsto>
             \<lparr> mac = ''AA:BB:CC:DD:EE:FF'', last_ip = JStr ''10.0.0.9'', last_seen = 2010 \<rparr>),
           True))"
proof (intro conjI)
  note entry = cam1_cache_entry [folded cam_ids(1)]
  from record_refreshes_only_on_relocation [where c = cam1 and mac_cache = cam1_cache
      and updated = False and m = "''AA:BB:CC:DD:EE:FF''" and addr = "JStr ''10.0.0.9''"
      and now = 2000, OF entry cam_ips(1), THEN conjunct1]
  show "cache_mac cam1_cache False ''cam1'' ''AA:BB:CC:DD:EE:FF'' (JStr ''10.0.0.9'') 2000 =
     Inr (cam1_cache, False)"
    by (simp add: cam_ids)
  from record_refreshes_only_on_relocation [where c = cam1 and mac_cache = cam1_cache
      and updated = False and m = "''AA:BB:CC:DD:EE:00''" and addr = "JStr ''10.0.0.9''"
      and now = 2000, OF entry cam_ips(1), THEN conjunct1]
  show "cache_mac cam1_cache False ''cam1'' ''AA:BB:CC:DD:EE:00'' (JStr ''10.0.0.9'') 2000 =
     Inr (cam1_cache(''cam1'' \<mapsto>
            \<lparr> mac = ''AA:BB:CC:DD:EE:00'', last_ip = JStr ''10.0.0.9'', last_seen = 2000 \<rparr>),
          True)"
    by (simp add: cam_ids)
  from record_refreshes_only_on_relocation [where c = cam1 and mac_cache = cam1_cache
      and updated = False and pf = win_platform and w = moved_world,
      OF entry cam_ips(1), THEN conjunct2]
  show "\<exists>rep. eval_camera win_platform True moved_world cam1 cam1_cache False =
      Inr (rep,
           cam1_cache(''cam1'' \<mapsto>
             \<lparr> mac = ''AA:BB:CC:DD:EE:FF'', last_ip = JStr ''10.0.0.9'', last_seen = 2010 \<rparr>),
           True)"
    by (simp add: cam_ids moved_world_fields ping_timed_out ping_reply prefix_of_cam1
        ex_scan_finds_9)
qed

text \<open>
  C3 as stated fails: the camera cached at 900 s with address 10.0.0.5 is seen again at
  2000 s, at 10.0.0.9 and with the same MAC; after the turn its entry still says
  10.0.0.5 and 900 s, and the cache is not marked as updated.
\<close>

theorem same_mac_not_refreshed_counterexample:
  "eval_camera win_platform True up_world cam1_moved cam1_cache False =
     Inr (\<lparr> r_name = Some ''cam1'', r_ip = JStr ''10.0.0.9'', r_status = ''up'',
            r_latency_ms = None, r_packet_loss = None, r_suspicious = False,
            r_mac_address = Some ''AA:BB:CC:DD:EE:FF'', r_ip_changed = False,
            r_old_ip = None \<rparr>,
          cam1_cache, False) \<and>
   cam1_cache ''cam1'' =
     Some \<lparr> mac = ''AA:BB:CC:DD:EE:FF'', last_ip = JStr ''10.0.0.5'', last_seen = 900 \<rparr> \<and>
   cache_time up_world = 2000"
proof (intro conjI)
  have p: "ping_ip win_platform (first_ping up_world) 2 =
      (True, None, None, ''Reply from 10.0.0.9: bytes=32 time=4ms TTL=64'')"
    by (simp add: up_world_fields ping_reply)
  show "eval_camera win_platform True up_world cam1_moved cam1_cache False =
     Inr (\<lparr> r_name = Some ''cam1'', r_ip = JStr ''10.0.0.9'', r_status = ''up'',
            r_latency_ms = None, r_packet_loss = None, r_suspicious = False,
            r_mac_address = Some ''AA:BB:CC:DD:EE:FF'', r_ip_changed = False,
            r_old_ip = None \<rparr>,
          cam1_cache, False)"
    unfolding eval_cam1_moved_up [OF p up_world_fields(2) up_world_fields(3)] by simp
  show "cam1_cache ''cam1'' =
     Some \<lparr> mac = ''AA:BB:CC:DD:EE:FF'', last_ip = JStr ''10.0.0.5'', last_seen = 900 \<rparr>"
    by (rule cam1_cache_entry)
  show "cache_time up_world = 2000" by (simp add: up_world_fields)
qed

text \<open>
  C2, on the code: the camera cached with AA:BB:CC:DD:EE:FF does not answer at
  10.0.0.5, the scan finds its MAC at 10.0.0.9, and 10.0.0.9 does not answer either.
  The report says down, with \<open>ip_changed\<close> true and \<open>old_ip\<close> the address that it
  also gives as \<open>ip\<close>: line 908 sets the flag before the ping of line 911.
\<close>

theorem failed_reprobe_report:
  "eval_camera win_platform True dark_world cam1 cam1_cache False =
     Inr (\<lparr> r_name = Some ''cam1'', r_ip = JStr ''10.0.0.5'', r_status = ''down'',
            r_latency_ms = None, r_packet_loss = None, r_suspicious = False,
            r_mac_address = None, r_ip_changed = True,
            r_old_ip = Some (JStr ''10.0.0.5'') \<rparr>,
          cam1_cache, False)"
proof -
  have p2: "ping_ip win_platform (second_ping dark_world) 2 =
      (False, None, None, ''Request timed out.'')"
    by (simp add: dark_world_fields ping_timed_out)
  show ?thesis
    unfolding eval_cam1_dark [OF dark_world_fields(1) dark_world_fields(2) p2] by simp
qed




end
